theory Spec2Isabelle
  imports Complex_Main "HOL-Library.AList"
begin

text \<open>
  A model of the analysis index subsystem of the Python Override Hint extension.
  \<open>src/extension.ts\<close> holds two modules one after the other: lines 1--598 (a per-file
  analysis process, a time-based cache and a \<open>DocumentManager\<close> with \<open>debounceTimers\<close>)
  and lines 599--1630 (the persistent worker process, the \<open>IntelligentCache\<close> and a
  \<open>DocumentManager\<close> with \<open>analysisQueue\<close>).  Everything below models the second module,
  except the last section of definitions, which models the first module's
  \<open>DocumentManager\<close>, the only place with a listener for the closing of a document.
\<close>

section \<open>Data model (src/extension.ts, second module, lines 599--1630)\<close>

text \<open>
  \<open>OverrideInfo\<close> (lines 610--630).  The TypeScript field names \<open>class\<close> and
  \<open>type\<close> are reserved words here, so every field carries the prefix \<open>o_\<close>.
  Optional fields (\<open>signature?\<close>, \<open>base?\<close>, ...) are options; \<open>undefined\<close> is \<open>None\<close>.
\<close>

record override_info =
  o_class :: string
  o_method :: string
  o_line :: int
  o_signature :: "string option"
  o_type :: string
  o_base :: "string option"
  o_base_file :: "string option"
  o_base_file_path :: "string option"
  o_base_line :: "int option"
  o_base_signature :: "string option"
  o_child :: "string option"
  o_child_file :: "string option"
  o_child_file_path :: "string option"
  o_child_line :: "int option"
  o_child_signature :: "string option"

text \<open>
  One relation object as the worker sends it (\<open>raw: any[]\<close>, line 1010): the fields
  that \<open>analyzeFile\<close> reads at lines 1013--1027.  The worker names the class either
  \<open>class\<close> or \<open>class_name\<close>.
\<close>

record raw_info =
  r_class :: "string option"
  r_class_name :: "string option"
  r_method :: string
  r_line :: int
  r_signature :: "string option"
  r_type :: string
  r_base :: "string option"
  r_base_file :: "string option"
  r_base_file_path :: "string option"
  r_base_line :: "int option"
  r_base_signature :: "string option"
  r_child :: "string option"
  r_child_file :: "string option"
  r_child_file_path :: "string option"
  r_child_line :: "int option"
  r_child_signature :: "string option"

text \<open>
  \<open>ProjectIndex\<close> (lines 635--639).  A JavaScript \<open>Map\<close> is keyed and keeps insertion
  order (the snapshot is written from \<open>entries()\<close>), so it is an association list:
  \<open>Map.get\<close> is \<open>map_of\<close>, \<open>Map.set\<close> is \<open>AList.update\<close> (an existing key keeps its
  position, a new key goes to the end), \<open>Map.delete\<close> is \<open>AList.delete\<close>.
  Timestamps are JavaScript numbers (\<open>mtimeMs\<close> is fractional), modelled as reals.
\<close>

record file_entry =
  overrides :: "override_info list"
  lastModified :: real

record project_index =
  files :: "(string \<times> file_entry) list"
  dependencies :: "(string \<times> string list) list"
  lastScan :: real

text \<open>
  The cache object: the index in memory and the content of \<open>override_cache.json\<close>
  (\<open>None\<close> while the file has never been written).
\<close>

record intelligent_cache =
  projectIndex :: project_index
  cacheFile :: "project_index option"

text \<open>
  What the cache reads from the outside: \<open>fs.statSync(p).mtimeMs\<close> (\<open>None\<close> when
  \<open>statSync\<close> throws, e.g. the file does not exist) and whether writing the snapshot
  succeeds (\<open>persistCache\<close> swallows a failed write, lines 880--882).
\<close>

record file_system =
  statSync :: "string \<Rightarrow> real option"
  storage_ok :: bool

section \<open>IntelligentCache (lines 817--956)\<close>

definition files_delete :: "string \<Rightarrow> intelligent_cache \<Rightarrow> intelligent_cache" where
  \<comment> \<open>\<open>this.projectIndex.files.delete(filePath)\<close>\<close>
  "files_delete filePath c =
     c\<lparr>projectIndex := (projectIndex c)\<lparr>files := AList.delete filePath (files (projectIndex c))\<rparr>\<rparr>"

definition persistCache :: "file_system \<Rightarrow> intelligent_cache \<Rightarrow> intelligent_cache" where
  \<comment> \<open>lines 866--883: the snapshot holds the three fields of the index\<close>
  "persistCache fs c =
     (if storage_ok fs then c\<lparr>cacheFile := Some (projectIndex c)\<rparr> else c)"

definition IntelligentCache_get ::
  "file_system \<Rightarrow> string \<Rightarrow> intelligent_cache \<Rightarrow> override_info list option \<times> intelligent_cache" where
  \<comment> \<open>lines 885--901; \<open>null\<close> is \<open>None\<close>\<close>
  "IntelligentCache_get fs filePath c =
     (case map_of (files (projectIndex c)) filePath of
        None \<Rightarrow> (None, c)
      | Some cached \<Rightarrow>
          (case statSync fs filePath of
             Some mtimeMs \<Rightarrow>
               if mtimeMs > lastModified cached
               then (None, files_delete filePath c)
               else (Some (overrides cached), c)
           | None \<Rightarrow> (None, files_delete filePath c)))"

definition IntelligentCache_set ::
  "file_system \<Rightarrow> string \<Rightarrow> override_info list \<Rightarrow> intelligent_cache \<Rightarrow> intelligent_cache" where
  \<comment> \<open>lines 903--914: a throwing \<open>statSync\<close> lands in the empty \<open>catch\<close>\<close>
  "IntelligentCache_set fs filePath ovs c =
     (case statSync fs filePath of
        Some mtimeMs \<Rightarrow>
          persistCache fs
            (c\<lparr>projectIndex := (projectIndex c)\<lparr>files :=
                 AList.update filePath \<lparr>overrides = ovs, lastModified = mtimeMs\<rparr>
                   (files (projectIndex c))\<rparr>\<rparr>)
      | None \<Rightarrow> c)"

fun unique :: "string list \<Rightarrow> string list" where
  \<comment> \<open>\<open>Array.from(new Set(xs))\<close>: the first occurrence of each element, in order\<close>
  "unique [] = []"
| "unique (x # xs) = x # unique (filter (\<lambda>y. y \<noteq> x) xs)"

definition setDependencies ::
  "file_system \<Rightarrow> string \<Rightarrow> string list \<Rightarrow> intelligent_cache \<Rightarrow> intelligent_cache" where
  \<comment> \<open>lines 831--835; \<open>filter(Boolean)\<close> drops the empty string\<close>
  "setDependencies fs filePath deps c =
     (let unique_deps = unique (filter (\<lambda>d. d \<noteq> []) deps)
      in persistCache fs
           (c\<lparr>projectIndex := (projectIndex c)\<lparr>dependencies :=
                AList.update filePath unique_deps (dependencies (projectIndex c))\<rparr>\<rparr>))"

fun findDependents_loop :: "string \<Rightarrow> (string \<times> string list) list \<Rightarrow> string list" where
  \<comment> \<open>the \<open>for ... of this.projectIndex.dependencies\<close> loop, lines 932--936\<close>
  "findDependents_loop filePath [] = []"
| "findDependents_loop filePath ((file, deps) # rest) =
     (if filePath \<in> set deps
      then file # findDependents_loop filePath rest
      else findDependents_loop filePath rest)"

definition findDependents :: "string \<Rightarrow> intelligent_cache \<Rightarrow> string list" where
  \<comment> \<open>lines 930--938\<close>
  "findDependents filePath c = findDependents_loop filePath (dependencies (projectIndex c))"

definition invalidateFile :: "file_system \<Rightarrow> string \<Rightarrow> intelligent_cache \<Rightarrow> intelligent_cache" where
  \<comment> \<open>lines 916--922: the dependents are computed after the file's own entry is gone\<close>
  "invalidateFile fs filePath c =
     (let c1 = files_delete filePath c;
          dependents = findDependents filePath c1;
          c2 = foldl (\<lambda>acc dep. files_delete dep acc) c1 dependents
      in persistCache fs c2)"

definition removeFile :: "file_system \<Rightarrow> string \<Rightarrow> intelligent_cache \<Rightarrow> intelligent_cache" where
  \<comment> \<open>lines 924--928\<close>
  "removeFile fs filePath c =
     persistCache fs
       ((files_delete filePath c)\<lparr>projectIndex :=
          (projectIndex (files_delete filePath c))\<lparr>dependencies :=
             AList.delete filePath (dependencies (projectIndex c))\<rparr>\<rparr>)"

definition IntelligentCache_delete :: "file_system \<Rightarrow> string \<Rightarrow> intelligent_cache \<Rightarrow> intelligent_cache" where
  \<comment> \<open>lines 946--949\<close>
  "IntelligentCache_delete fs filePath c = persistCache fs (files_delete filePath c)"

definition IntelligentCache_clear :: "file_system \<Rightarrow> intelligent_cache \<Rightarrow> intelligent_cache" where
  \<comment> \<open>lines 951--955\<close>
  "IntelligentCache_clear fs c =
     persistCache fs (c\<lparr>projectIndex := (projectIndex c)\<lparr>files := [], dependencies := []\<rparr>\<rparr>)"


definition dependsOn :: "intelligent_cache \<Rightarrow> string \<Rightarrow> string \<Rightarrow> bool" where
  \<comment> \<open>the dependency row stored for \<open>x\<close> contains \<open>y\<close>\<close>
  "dependsOn c x y =
     (\<exists>row \<in> set (dependencies (projectIndex c)). fst row = x \<and> y \<in> set (snd row))"

definition fresh :: "file_system \<Rightarrow> string \<Rightarrow> file_entry \<Rightarrow> bool" where
  \<comment> \<open>the specification's condition for a hit: the file can be stat'ed and its
      modification time is not greater than the entry's \<open>lastModified\<close>\<close>
  "fresh fs filePath entry =
     (case statSync fs filePath of
        None \<Rightarrow> False
      | Some mtimeMs \<Rightarrow> mtimeMs \<le> lastModified entry)"


section \<open>PythonOverrideAnalyzer (lines 961--1090)\<close>

text \<open>
  The analyzer awaits three things: \<open>initialize()\<close>, the process manager's
  \<open>analyzeFile\<close> and its \<open>restart()\<close>.  What the first two yield is decided outside the
  analyzer, so it is an argument of the model; what \<open>restart()\<close> yields is discarded by
  the source (\<open>try { await ... } catch {}\<close>).  The calls the analyzer makes on the process
  manager are returned as a list, oldest first.

  \<open>start()\<close> returns the readiness promise, so the \<open>await\<close> in \<open>initialize\<close> may never
  come back (\<open>NeverReady\<close>); an \<open>async\<close> function therefore has three outcomes.  The
  process manager's \<open>analyzeFile\<close> is only awaited after \<open>initialize\<close> has returned, that
  is after the readiness promise has resolved; from then on every request it registers has
  a timeout timer, and \<open>restart\<close> awaits a one-second timer and the resolved readiness
  promise, so both settle.
\<close>

datatype link_error =
    AnalysisTimeout string
  | ProcessTerminated
  | WorkerError string
  | WriteError string

datatype init_outcome =
    ScriptNotFound
  | StartThrows string
  | NeverReady
  | Started

datatype analyzer_error =
    ScriptNotFoundError
  | StartError string

datatype 'a awaited =
    Never
  | Throws analyzer_error
  | Returns 'a

datatype manager_call =
    CallStart
  | CallAnalyzeFile string
  | CallRestart

record python_override_analyzer =
  processManager :: bool
  cache :: intelligent_cache
  isInitialized :: bool

definition truthy :: "string option \<Rightarrow> bool" where
  \<comment> \<open>JavaScript truthiness of an optional string: present and not empty\<close>
  "truthy v = (case v of None \<Rightarrow> False | Some s \<Rightarrow> s \<noteq> [])"

definition initialize ::
  "init_outcome \<Rightarrow> python_override_analyzer \<Rightarrow>
   unit awaited \<times> python_override_analyzer \<times> manager_call list" where
  \<comment> \<open>lines 970--996: the script check throws before the manager exists;
      \<open>start()\<close> may throw, or never resolve, after \<open>this.processManager\<close> is assigned\<close>
  "initialize outcome a =
     (if isInitialized a then (Returns (), a, [])
      else case outcome of
             ScriptNotFound \<Rightarrow> (Throws ScriptNotFoundError, a, [])
           | StartThrows e \<Rightarrow> (Throws (StartError e), a\<lparr>processManager := True\<rparr>, [CallStart])
           | NeverReady \<Rightarrow> (Never, a\<lparr>processManager := True\<rparr>, [CallStart])
           | Started \<Rightarrow>
               (Returns (), a\<lparr>processManager := True, isInitialized := True\<rparr>, [CallStart]))"

definition normalize :: "raw_info \<Rightarrow> override_info" where
  \<comment> \<open>lines 1012--1028; \<open>r.class ?? r.class_name ?? ''\<close>\<close>
  "normalize r =
     \<lparr> o_class = (case r_class r of Some c \<Rightarrow> c
                  | None \<Rightarrow> (case r_class_name r of Some c \<Rightarrow> c | None \<Rightarrow> [])),
       o_method = r_method r,
       o_line = r_line r,
       o_signature = r_signature r,
       o_type = r_type r,
       o_base = r_base r,
       o_base_file = r_base_file r,
       o_base_file_path = r_base_file_path r,
       o_base_line = r_base_line r,
       o_base_signature = r_base_signature r,
       o_child = r_child r,
       o_child_file = r_child_file r,
       o_child_file_path = r_child_file_path r,
       o_child_line = r_child_line r,
       o_child_signature = r_child_signature r \<rparr>"

fun collect_deps :: "override_info list \<Rightarrow> string list" where
  \<comment> \<open>the loop of lines 1033--1037\<close>
  "collect_deps [] = []"
| "collect_deps (ov # rest) =
     (if o_type ov = ''child_override'' \<and> truthy (o_base_file_path ov)
      then [the (o_base_file_path ov)] else []) @
     (if o_type ov = ''parent_overridden'' \<and> truthy (o_child_file_path ov)
      then [the (o_child_file_path ov)] else []) @
     collect_deps rest"

definition PythonOverrideAnalyzer_analyzeFile ::
  "file_system \<Rightarrow> init_outcome \<Rightarrow> link_error + raw_info list \<Rightarrow> string \<Rightarrow>
   python_override_analyzer \<Rightarrow>
   override_info list awaited \<times> python_override_analyzer \<times> manager_call list" where
  \<comment> \<open>lines 998--1048.  \<open>if (cached)\<close>: an array, also an empty one, is truthy.
      A missing manager makes \<open>this.processManager!.analyzeFile\<close> throw inside the
      \<open>try\<close>; the \<open>catch\<close> then finds no manager to restart.\<close>
  "PythonOverrideAnalyzer_analyzeFile fs init worker filePath a =
     (case IntelligentCache_get fs filePath (cache a) of
        (Some cached, c1) \<Rightarrow> (Returns cached, a\<lparr>cache := c1\<rparr>, [])
      | (None, c1) \<Rightarrow>
          (case initialize init (a\<lparr>cache := c1\<rparr>) of
             (Never, a2, calls) \<Rightarrow> (Never, a2, calls)
           | (Throws e, a2, calls) \<Rightarrow> (Throws e, a2, calls)
           | (Returns u, a2, calls) \<Rightarrow>
               if \<not> processManager a2 then (Returns [], a2, calls)
               else
                 (case worker of
                    Inr result \<Rightarrow>
                      let overrides = map normalize result;
                          c2 = IntelligentCache_set fs filePath overrides (cache a2);
                          deps = collect_deps overrides;
                          c3 = setDependencies fs filePath deps c2
                      in (Returns overrides, a2\<lparr>cache := c3\<rparr>,
                          calls @ [CallAnalyzeFile filePath])
                  | Inl err \<Rightarrow>
                      (Returns [], a2, calls @ [CallAnalyzeFile filePath, CallRestart]))))"

definition clearCache ::
  "file_system \<Rightarrow> string option \<Rightarrow> python_override_analyzer \<Rightarrow> python_override_analyzer" where
  \<comment> \<open>lines 1078--1084\<close>
  "clearCache fs filePath a =
     (if truthy filePath then a\<lparr>cache := IntelligentCache_delete fs (the filePath) (cache a)\<rparr>
      else a\<lparr>cache := IntelligentCache_clear fs (cache a)\<rparr>)"

definition resolve_twice ::
  "file_system \<Rightarrow> init_outcome \<Rightarrow> link_error + raw_info list \<Rightarrow>
   init_outcome \<Rightarrow> link_error + raw_info list \<Rightarrow> string \<Rightarrow> python_override_analyzer \<Rightarrow>
   (override_info list awaited \<times> python_override_analyzer \<times> manager_call list) \<times>
   (override_info list awaited \<times> python_override_analyzer \<times> manager_call list)" where
  \<comment> \<open>two calls of \<open>analyzeFile\<close> for one file under the same file system\<close>
  "resolve_twice fs init1 worker1 init2 worker2 filePath a =
     (let first = PythonOverrideAnalyzer_analyzeFile fs init1 worker1 filePath a;
          second = PythonOverrideAnalyzer_analyzeFile fs init2 worker2 filePath (fst (snd first))
      in (first, second))"

section \<open>PythonProcessManager (lines 644--812)\<close>

text \<open>
  The manager runs on the event loop: each call from the analyzer and each callback (a
  chunk of worker output, the exit or error of the process, a timeout timer) runs to
  completion before the next.  The model is a state and one function per call or callback;
  \<open>step\<close> dispatches an event to them.  There is no clock: an armed timer may fire at any
  later event, which is what elapsing \<open>timeoutMs\<close> means for a timer not yet cleared.

  Objects are named by numbers.  A child process is named by its spawn number.  The
  \<open>n\<close>-th request (\<open>messageId = n\<close>) creates one promise and one timer; both are named
  \<open>n\<close>, so an entry \<open>{resolve, reject, timeout}\<close> of \<open>pendingRequests\<close> is the number \<open>n\<close>.
  Calling \<open>resolve\<close> or \<open>reject\<close> appends to \<open>settled\<close>; a line written to the process's
  input is appended to \<open>stdin\<close> with the process it went to.  The readiness promise is
  created once, in the constructor; \<open>readyPromise\<close> tells whether it has been resolved, and
  \<open>awaiting\<close> holds the \<open>analyzeFile\<close> calls suspended at \<open>await this.readyPromise\<close>.
\<close>

record response =
  resp_type :: "string option"
  resp_id :: "string option"
  resp_error :: "string option"
  resp_result :: "raw_info list option"

text \<open>
  A complete line of worker output after \<open>JSON.parse\<close>: blank (skipped by
  \<open>line.trim()\<close>), not parsable (logged in the \<open>catch\<close>), or an object with the fields
  the manager reads.  Splitting the byte stream into lines (\<open>outputBuffer\<close>) is not
  modelled: a \<open>StdoutData\<close> event carries the complete lines of one chunk.
\<close>

datatype line = Blank | Malformed | Parsed response

record request =
  req_id :: string
  req_command :: string
  req_file_path :: string

record timeout_timer =
  t_id :: string
  t_filePath :: string
  t_ms :: real

record python_process_manager =
  pythonProcess :: "nat option"
  messageId :: nat
  pendingRequests :: "(string \<times> nat) list"
  isReady :: bool
  readyPromise :: bool
  awaiting :: "(string \<times> real \<times> string option) list"
  timeouts :: "(nat \<times> timeout_timer) list"
  stdin :: "(nat \<times> request) list"
  settled :: "(nat \<times> (link_error + raw_info list)) list"
  spawned :: nat
  killed :: "nat list"

definition new_PythonProcessManager :: python_process_manager where
  \<comment> \<open>field initialisers and constructor, lines 645--657\<close>
  "new_PythonProcessManager =
     \<lparr> pythonProcess = None, messageId = 0, pendingRequests = [], isReady = False,
       readyPromise = False, awaiting = [], timeouts = [], stdin = [], settled = [],
       spawned = 0, killed = [] \<rparr>"

definition digit :: "nat \<Rightarrow> char" where
  "digit d = ''0123456789'' ! d"

fun decimal :: "nat \<Rightarrow> string" where
  \<comment> \<open>how a template literal prints a non-negative integer\<close>
  "decimal n = (if n < 10 then [digit n] else decimal (n div 10) @ [digit (n mod 10)])"

declare decimal.simps [simp del]

definition request_id :: "nat \<Rightarrow> string" where
  \<comment> \<open>\<open>`req_${++this.messageId}`\<close>, line 760\<close>
  "request_id n = ''req_'' @ decimal n"

definition start :: "bool \<Rightarrow> python_process_manager \<Rightarrow> python_process_manager" where
  \<comment> \<open>lines 659--681; the flag says that \<open>spawn\<close> throws, and then nothing is assigned\<close>
  "start spawn_throws s =
     (case pythonProcess s of
        Some p \<Rightarrow> s
      | None \<Rightarrow>
          if spawn_throws then s
          else s\<lparr>pythonProcess := Some (spawned s + 1), spawned := spawned s + 1\<rparr>)"

definition send ::
  "string \<Rightarrow> real \<Rightarrow> string option \<Rightarrow> python_process_manager \<Rightarrow> python_process_manager" where
  \<comment> \<open>the promise executor of lines 759--782; \<open>write_error\<close> is what \<open>stdin.write\<close>
      throws, if it throws; without a process the optional chain writes nothing\<close>
  "send filePath timeoutMs write_error s =
     (let n = messageId s + 1;
          id = request_id n;
          request = \<lparr>req_id = id, req_command = ''analyze'', req_file_path = filePath\<rparr>;
          s1 = s\<lparr>messageId := n,
                 timeouts := timeouts s @
                   [(n, \<lparr>t_id = id, t_filePath = filePath, t_ms = timeoutMs\<rparr>)],
                 pendingRequests := AList.update id n (pendingRequests s)\<rparr>
      in case pythonProcess s1 of
           None \<Rightarrow> s1
         | Some p \<Rightarrow>
             (case write_error of
                None \<Rightarrow> s1\<lparr>stdin := stdin s1 @ [(p, request)]\<rparr>
              | Some e \<Rightarrow>
                  s1\<lparr>pendingRequests := AList.delete id (pendingRequests s1),
                     timeouts := AList.delete n (timeouts s1),
                     settled := settled s1 @ [(n, Inl (WriteError e))]\<rparr>))"

definition PythonProcessManager_analyzeFile ::
  "string \<Rightarrow> real \<Rightarrow> string option \<Rightarrow> python_process_manager \<Rightarrow> python_process_manager" where
  \<comment> \<open>lines 754--783.  \<open>await\<close> on the resolved promise continues within the same
      turn of the event loop; on the unresolved promise the call is suspended.\<close>
  "PythonProcessManager_analyzeFile filePath timeoutMs write_error s =
     (if \<not> isReady s \<and> \<not> readyPromise s
      then s\<lparr>awaiting := awaiting s @ [(filePath, timeoutMs, write_error)]\<rparr>
      else send filePath timeoutMs write_error s)"

definition resume_awaiting :: "python_process_manager \<Rightarrow> python_process_manager" where
  \<comment> \<open>the continuations of \<open>await this.readyPromise\<close>, run in order once the promise
      is resolved and the current callback has returned\<close>
  "resume_awaiting s =
     (if readyPromise s
      then foldl (\<lambda>acc (filePath, timeoutMs, write_error). send filePath timeoutMs write_error acc)
             (s\<lparr>awaiting := []\<rparr>) (awaiting s)
      else s)"

definition response_outcome :: "response \<Rightarrow> link_error + raw_info list" where
  \<comment> \<open>lines 746--750: \<open>reject(new Error(response.error))\<close> for a truthy \<open>error\<close>,
      else \<open>resolve(response.result || [])\<close>\<close>
  "response_outcome response =
     (if truthy (resp_error response)
      then Inl (WorkerError (the (resp_error response)))
      else Inr (case resp_result response of Some r \<Rightarrow> r | None \<Rightarrow> []))"

definition handleResponse :: "response \<Rightarrow> python_process_manager \<Rightarrow> python_process_manager" where
  \<comment> \<open>lines 736--752; an id that is missing or not a string matches no key\<close>
  "handleResponse response s =
     (case resp_id response of
        None \<Rightarrow> s
      | Some requestId \<Rightarrow>
          (case map_of (pendingRequests s) requestId of
             None \<Rightarrow> s
           | Some n \<Rightarrow>
               s\<lparr>timeouts := AList.delete n (timeouts s),
                  pendingRequests := AList.delete requestId (pendingRequests s),
                  settled := settled s @ [(n, response_outcome response)]\<rparr>))"

fun processLine :: "line \<Rightarrow> python_process_manager \<Rightarrow> python_process_manager" where
  \<comment> \<open>the body of the loop of lines 716--733\<close>
  "processLine Blank s = s"
| "processLine Malformed s = s"
| "processLine (Parsed response) s =
     (if resp_type response = Some ''ready''
      then s\<lparr>isReady := True, readyPromise := True\<rparr>
      else handleResponse response s)"

definition processOutput :: "line list \<Rightarrow> python_process_manager \<Rightarrow> python_process_manager" where
  \<comment> \<open>lines 712--734\<close>
  "processOutput lines s = foldl (\<lambda>acc l. processLine l acc) s lines"

definition cleanup :: "python_process_manager \<Rightarrow> python_process_manager" where
  \<comment> \<open>lines 785--797\<close>
  "cleanup s =
     s\<lparr>isReady := False,
       pythonProcess := None,
       timeouts := foldl (\<lambda>acc (id, n). AList.delete n acc) (timeouts s) (pendingRequests s),
       settled := settled s @ map (\<lambda>(id, n). (n, Inl ProcessTerminated)) (pendingRequests s),
       pendingRequests := []\<rparr>"

definition dispose :: "python_process_manager \<Rightarrow> python_process_manager" where
  \<comment> \<open>lines 805--811\<close>
  "dispose s =
     cleanup (case pythonProcess s of
                Some p \<Rightarrow> s\<lparr>killed := killed s @ [p], pythonProcess := None\<rparr>
              | None \<Rightarrow> s)"

definition timeout_callback :: "nat \<Rightarrow> python_process_manager \<Rightarrow> python_process_manager" where
  \<comment> \<open>the callback of lines 767--770; a timer that is not armed cannot fire\<close>
  "timeout_callback n s =
     (case map_of (timeouts s) n of
        None \<Rightarrow> s
      | Some t \<Rightarrow>
          s\<lparr>timeouts := AList.delete n (timeouts s),
             pendingRequests := AList.delete (t_id t) (pendingRequests s),
             settled := settled s @ [(n, Inl (AnalysisTimeout (t_filePath t)))]\<rparr>)"

text \<open>
  The events of the manager.  \<open>restart()\<close> (lines 799--803) is \<open>Dispose\<close>, a one-second
  timer during which other events may run, then \<open>Start\<close>.
\<close>

datatype event =
    Start bool
  | AnalyzeFile string real "string option"
  | Dispose
  | StdoutData "line list"
  | ProcessError
  | ProcessExit
  | TimeoutFires nat

fun step :: "event \<Rightarrow> python_process_manager \<Rightarrow> python_process_manager" where
  "step (Start spawn_throws) s = start spawn_throws s"
| "step (AnalyzeFile filePath timeoutMs write_error) s =
     PythonProcessManager_analyzeFile filePath timeoutMs write_error s"
| "step Dispose s = dispose s"
| "step (StdoutData lines) s = resume_awaiting (processOutput lines s)"
| "step ProcessError s = cleanup s"
| "step ProcessExit s = cleanup s"
| "step (TimeoutFires n) s = timeout_callback n s"

definition run :: "event list \<Rightarrow> python_process_manager \<Rightarrow> python_process_manager" where
  "run es s = foldl (\<lambda>acc e. step e acc) s es"

definition ready_line :: line where
  \<comment> \<open>\<open>{"type":"ready"}\<close>\<close>
  "ready_line = Parsed \<lparr>resp_type = Some ''ready'', resp_id = None, resp_error = None,
                         resp_result = None\<rparr>"

definition result_line :: "string \<Rightarrow> raw_info list \<Rightarrow> line" where
  \<comment> \<open>\<open>{"id": ..., "result": [...]}\<close>\<close>
  "result_line requestId result =
     Parsed \<lparr>resp_type = None, resp_id = Some requestId, resp_error = None,
             resp_result = Some result\<rparr>"

text \<open>
  What holds of the manager's tables in every state it can reach: a pending entry sits
  under the id of its own request number and has an armed timer; an armed timer belongs
  to a pending request; a settled promise is no longer pending; no promise is settled
  twice; request numbers never exceed \<open>messageId\<close>.
\<close>

definition manager_inv :: "python_process_manager \<Rightarrow> bool" where
  "manager_inv s \<longleftrightarrow>
     (\<forall>entry \<in> set (pendingRequests s).
        fst entry = request_id (snd entry) \<and> snd entry \<le> messageId s \<and>
        snd entry \<in> fst ` set (timeouts s)) \<and>
     distinct (map fst (pendingRequests s)) \<and>
     (\<forall>timer \<in> set (timeouts s).
        t_id (snd timer) = request_id (fst timer) \<and> fst timer \<le> messageId s \<and>
        (request_id (fst timer), fst timer) \<in> set (pendingRequests s)) \<and>
     distinct (map fst (timeouts s)) \<and>
     (\<forall>done \<in> set (settled s).
        fst done \<le> messageId s \<and> request_id (fst done) \<notin> fst ` set (pendingRequests s)) \<and>
     distinct (map fst (settled s))"

text \<open>
  Two auxiliary predicates for the proofs.  \<open>quiet\<close>: the readiness promise has never been
  resolved and nothing has been sent.  \<open>grows s s'\<close>: from \<open>s\<close> to \<open>s'\<close> the request counter
  has not decreased and every key of the pending table is an old key or the id of a request
  numbered after \<open>messageId s\<close>.
\<close>

definition quiet :: "python_process_manager \<Rightarrow> bool" where
  "quiet s \<longleftrightarrow> \<not> readyPromise s \<and> \<not> isReady s \<and> stdin s = [] \<and> pendingRequests s = []"

definition grows :: "python_process_manager \<Rightarrow> python_process_manager \<Rightarrow> bool" where
  "grows s s' \<longleftrightarrow>
     messageId s \<le> messageId s' \<and>
     (\<forall>k \<in> fst ` set (pendingRequests s').
        k \<in> fst ` set (pendingRequests s) \<or> (\<exists>m. messageId s < m \<and> k = request_id m))"

definition has_ready :: "event \<Rightarrow> bool" where
  \<comment> \<open>the event is a chunk of output that contains a readiness line\<close>
  "has_ready e =
     (case e of
        StdoutData lines \<Rightarrow>
          (\<exists>l \<in> set lines. case l of Parsed r \<Rightarrow> resp_type r = Some ''ready'' | _ \<Rightarrow> False)
      | _ \<Rightarrow> False)"

section \<open>DocumentManager, second module (lines 1416--1569)\<close>

text \<open>
  The scheduler state is the \<open>analysisQueue\<close> map from file to timer handle.  The model
  adds the timers that are armed (handle, with the file and delay the callback was created
  for), the counter that names the next handle \<open>setTimeout\<close> returns, and the list of
  calls made so far: \<open>analyzer.clearCache\<close>, \<open>performAnalysis\<close>, and the
  \<open>decorationProvider.updateDecorations\<close> that \<open>performAnalysis\<close> starts when the file is the
  active editor's document.  There is no clock: an armed timer fires at some later event.
\<close>

datatype dm_call =
    ClearCache string
  | PerformAnalysis string
  | UpdateDecorations string

record queue_timer =
  q_filePath :: string
  q_delay :: real

record document_manager =
  analysisQueue :: "(string \<times> nat) list"
  armed :: "(nat \<times> queue_timer) list"
  next_handle :: nat
  calls :: "dm_call list"

definition new_DocumentManager :: document_manager where
  \<comment> \<open>line 1421: the queue starts empty\<close>
  "new_DocumentManager = \<lparr> analysisQueue = [], armed = [], next_handle = 0, calls = [] \<rparr>"

definition scheduleAnalysis :: "string \<Rightarrow> real \<Rightarrow> document_manager \<Rightarrow> document_manager" where
  \<comment> \<open>lines 1512--1526; a \<open>Timeout\<close> object is truthy, so \<open>if (existingTimeout)\<close> asks
      whether the map has an entry\<close>
  "scheduleAnalysis filePath delay s =
     (let s1 = (case map_of (analysisQueue s) filePath of
                  Some existingTimeout \<Rightarrow> s\<lparr>armed := AList.delete existingTimeout (armed s)\<rparr>
                | None \<Rightarrow> s);
          timeout = next_handle s1
      in s1\<lparr>armed := armed s1 @ [(timeout, \<lparr>q_filePath = filePath, q_delay = delay\<rparr>)],
            next_handle := timeout + 1,
            analysisQueue := AList.update filePath timeout (analysisQueue s1)\<rparr>)"

definition performAnalysis :: "string option \<Rightarrow> string \<Rightarrow> document_manager \<Rightarrow> document_manager" where
  \<comment> \<open>lines 1528--1546, up to its first \<open>await\<close>; the first argument is the file of
      \<open>vscode.window.activeTextEditor\<close>, if there is one\<close>
  "performAnalysis activeFile filePath s =
     s\<lparr>calls := calls s @ [PerformAnalysis filePath] @
          (if activeFile = Some filePath then [UpdateDecorations filePath] else [])\<rparr>"

definition queue_timer_callback ::
  "string option \<Rightarrow> nat \<Rightarrow> document_manager \<Rightarrow> document_manager" where
  \<comment> \<open>the callback of lines 1520--1523; a timer that is not armed cannot fire\<close>
  "queue_timer_callback activeFile timeout s =
     (case map_of (armed s) timeout of
        None \<Rightarrow> s
      | Some t \<Rightarrow>
          (let s1 = performAnalysis activeFile (q_filePath t)
                      (s\<lparr>armed := AList.delete timeout (armed s)\<rparr>)
           in s1\<lparr>analysisQueue := AList.delete (q_filePath t) (analysisQueue s1)\<rparr>))"

text \<open>
  The editor events, each with the document's file name and language id.  The second
  module subscribes to open, active-editor change, save and change (lines 1468--1496);
  it registers no listener for the closing of a document, so that event changes nothing.
\<close>

datatype editor_event =
    DidOpenTextDocument string string
  | DidChangeActiveTextEditor "(string \<times> string) option"
  | DidSaveTextDocument string string
  | DidChangeTextDocument string string
  | DidCloseTextDocument string string
  | TimerFires nat "string option"

fun dm_step :: "editor_event \<Rightarrow> document_manager \<Rightarrow> document_manager" where
  "dm_step (DidOpenTextDocument fileName languageId) s =
     (if languageId = ''python'' then scheduleAnalysis fileName 100 s else s)"
| "dm_step (DidChangeActiveTextEditor editor) s =
     (case editor of
        Some (fileName, languageId) \<Rightarrow>
          if languageId = ''python'' then scheduleAnalysis fileName 50 s else s
      | None \<Rightarrow> s)"
| "dm_step (DidSaveTextDocument fileName languageId) s =
     (if languageId = ''python''
      then scheduleAnalysis fileName 200 (s\<lparr>calls := calls s @ [ClearCache fileName]\<rparr>)
      else s)"
| "dm_step (DidChangeTextDocument fileName languageId) s =
     (if languageId = ''python'' then scheduleAnalysis fileName 1000 s else s)"
| "dm_step (DidCloseTextDocument fileName languageId) s = s"
| "dm_step (TimerFires timeout activeFile) s = queue_timer_callback activeFile timeout s"

definition dm_run :: "editor_event list \<Rightarrow> document_manager \<Rightarrow> document_manager" where
  "dm_run es s = foldl (\<lambda>acc e. dm_step e acc) s es"

fun trigger_for :: "string \<Rightarrow> editor_event \<Rightarrow> bool" where
  \<comment> \<open>the event makes the manager call \<open>scheduleAnalysis\<close> for this file\<close>
  "trigger_for f (DidOpenTextDocument fileName languageId) =
     (fileName = f \<and> languageId = ''python'')"
| "trigger_for f (DidChangeActiveTextEditor editor) = (editor = Some (f, ''python''))"
| "trigger_for f (DidSaveTextDocument fileName languageId) =
     (fileName = f \<and> languageId = ''python'')"
| "trigger_for f (DidChangeTextDocument fileName languageId) =
     (fileName = f \<and> languageId = ''python'')"
| "trigger_for f (DidCloseTextDocument fileName languageId) = False"
| "trigger_for f (TimerFires timeout activeFile) = False"

definition timers_for :: "string \<Rightarrow> document_manager \<Rightarrow> nat list" where
  \<comment> \<open>the handles of the armed timers whose callback is for this file\<close>
  "timers_for f s = map fst (filter (\<lambda>t. q_filePath (snd t) = f) (armed s))"

definition analyses_of :: "string \<Rightarrow> document_manager \<Rightarrow> nat" where
  \<comment> \<open>how often \<open>performAnalysis\<close> has been invoked for this file\<close>
  "analyses_of f s = count_list (calls s) (PerformAnalysis f)"

definition dm_inv :: "document_manager \<Rightarrow> bool" where
  \<comment> \<open>every armed timer is the one registered in the queue for its file, every
      registered timer is armed for that file, and handles are not reused\<close>
  "dm_inv s \<longleftrightarrow>
     (\<forall>t \<in> set (armed s).
        (q_filePath (snd t), fst t) \<in> set (analysisQueue s) \<and> fst t < next_handle s) \<and>
     (\<forall>e \<in> set (analysisQueue s).
        (snd e, fst e) \<in> set (map (\<lambda>t. (fst t, q_filePath (snd t))) (armed s))) \<and>
     distinct (map fst (analysisQueue s)) \<and>
     distinct (map fst (armed s))"

definition cancel :: "string \<Rightarrow> document_manager \<Rightarrow> (nat \<times> queue_timer) list" where
  \<comment> \<open>the armed timers after the \<open>clearTimeout\<close> of \<open>scheduleAnalysis\<close>\<close>
  "cancel f s = (case map_of (analysisQueue s) f of
                   Some existingTimeout \<Rightarrow> AList.delete existingTimeout (armed s)
                 | None \<Rightarrow> armed s)"

section \<open>DocumentManager, first module (lines 366--457)\<close>

text \<open>
  The first module's manager keeps \<open>debounceTimers\<close>.  Its timer callback is \<open>async\<close>: it
  starts \<open>updateDecorations\<close> when the timer fires and reaches its \<open>finally\<close>, which deletes
  the file's entry, only when that call has settled; in between it is kept in
  \<open>running\<close> under the handle of its timer.  The configured \<open>debounceDelay\<close> is an argument.
\<close>

datatype dm1_call =
    ClearFileCache string
  | UpdateDecorations1 string
  | RefreshCodeLens

record document_manager1 =
  debounceTimers :: "(string \<times> nat) list"
  armed1 :: "(nat \<times> queue_timer) list"
  running :: "(nat \<times> string) list"
  next_handle1 :: nat
  calls1 :: "dm1_call list"

definition scheduleAnalysis1 ::
  "real \<Rightarrow> string \<Rightarrow> real option \<Rightarrow> document_manager1 \<Rightarrow> document_manager1" where
  \<comment> \<open>lines 423--447; \<open>delay ?? config.get('debounceDelay', 1000)\<close>\<close>
  "scheduleAnalysis1 configured filePath delay s =
     (let debounceDelay = (case delay of Some d \<Rightarrow> d | None \<Rightarrow> configured);
          s1 = (case map_of (debounceTimers s) filePath of
                  Some existingTimer \<Rightarrow> s\<lparr>armed1 := AList.delete existingTimer (armed1 s)\<rparr>
                | None \<Rightarrow> s);
          timer = next_handle1 s1
      in s1\<lparr>armed1 := armed1 s1 @ [(timer, \<lparr>q_filePath = filePath, q_delay = debounceDelay\<rparr>)],
            next_handle1 := timer + 1,
            debounceTimers := AList.update filePath timer (debounceTimers s1)\<rparr>)"

definition debounce_callback_starts :: "nat \<Rightarrow> document_manager1 \<Rightarrow> document_manager1" where
  \<comment> \<open>lines 435--437: the timer fires and the callback awaits \<open>updateDecorations\<close>\<close>
  "debounce_callback_starts timer s =
     (case map_of (armed1 s) timer of
        None \<Rightarrow> s
      | Some t \<Rightarrow>
          s\<lparr>armed1 := AList.delete timer (armed1 s),
            calls1 := calls1 s @ [UpdateDecorations1 (q_filePath t)],
            running := running s @ [(timer, q_filePath t)]\<rparr>)"

definition debounce_callback_settles ::
  "nat \<Rightarrow> bool \<Rightarrow> document_manager1 \<Rightarrow> document_manager1" where
  \<comment> \<open>lines 438--443: \<open>refresh()\<close> if the awaited call succeeded, then the \<open>finally\<close>\<close>
  "debounce_callback_settles timer ok s =
     (case map_of (running s) timer of
        None \<Rightarrow> s
      | Some filePath \<Rightarrow>
          s\<lparr>running := AList.delete timer (running s),
            calls1 := calls1 s @ (if ok then [RefreshCodeLens] else []),
            debounceTimers := AList.delete filePath (debounceTimers s)\<rparr>)"

definition onDidCloseTextDocument ::
  "string \<Rightarrow> string \<Rightarrow> document_manager1 \<Rightarrow> document_manager1" where
  \<comment> \<open>lines 410--419\<close>
  "onDidCloseTextDocument fileName languageId s =
     (if languageId = ''python''
      then (let s1 = s\<lparr>calls1 := calls1 s @ [ClearFileCache fileName]\<rparr>
            in case map_of (debounceTimers s1) fileName of
                 Some timerId \<Rightarrow>
                   s1\<lparr>armed1 := AList.delete timerId (armed1 s1),
                      debounceTimers := AList.delete fileName (debounceTimers s1)\<rparr>
               | None \<Rightarrow> s1)
      else s)"

definition new_DocumentManager1 :: document_manager1 where
  \<comment> \<open>line 367: no timer registered\<close>
  "new_DocumentManager1 =
     \<lparr> debounceTimers = [], armed1 = [], running = [], next_handle1 = 0, calls1 = [] \<rparr>"

datatype editor_event1 =
    ActiveEditorChanged "(string \<times> string) option"
  | Saved string string bool
  | Closed string string
  | DebounceFires nat
  | CallbackSettles nat bool

fun dm1_step :: "real \<Rightarrow> editor_event1 \<Rightarrow> document_manager1 \<Rightarrow> document_manager1" where
  \<comment> \<open>lines 385--421; \<open>Saved\<close> carries whether the saved document is the active editor's\<close>
  "dm1_step configured (ActiveEditorChanged editor) s =
     (case editor of
        Some (fileName, languageId) \<Rightarrow>
          if languageId = ''python'' then scheduleAnalysis1 configured fileName None s else s
      | None \<Rightarrow> s)"
| "dm1_step configured (Saved fileName languageId active) s =
     (if languageId = ''python''
      then (let s1 = s\<lparr>calls1 := calls1 s @ [ClearFileCache fileName]\<rparr>
            in if active then scheduleAnalysis1 configured fileName (Some 100) s1 else s1)
      else s)"
| "dm1_step configured (Closed fileName languageId) s = onDidCloseTextDocument fileName languageId s"
| "dm1_step configured (DebounceFires timer) s = debounce_callback_starts timer s"
| "dm1_step configured (CallbackSettles timer ok) s = debounce_callback_settles timer ok s"

section \<open>Example values\<close>

definition fs_example :: file_system where
  \<comment> \<open>two files on disk, a third path that does not exist\<close>
  "fs_example =
     \<lparr> statSync = (\<lambda>p. if p = ''/p/a.py'' then Some 100
                       else if p = ''/p/b.py'' then Some 200 else None),
       storage_ok = True \<rparr>"

definition relation_example :: raw_info where
  \<comment> \<open>the relation of the scenario in section 8 of the specification\<close>
  "relation_example =
     \<lparr> r_class = Some ''Dog'', r_class_name = None, r_method = ''speak'', r_line = 5,
       r_signature = None, r_type = ''child_override'', r_base = Some ''Animal'',
       r_base_file = None, r_base_file_path = Some ''/p/b.py'', r_base_line = Some 2,
       r_base_signature = None, r_child = None, r_child_file = None,
       r_child_file_path = None, r_child_line = None, r_child_signature = None \<rparr>"

definition index_example :: project_index where
  \<comment> \<open>\<open>a.py\<close> depends on \<open>b.py\<close>, \<open>c.py\<close> depends on \<open>a.py\<close>; \<open>gone.py\<close> is cached
      but no longer on disk\<close>
  "index_example =
     \<lparr> files = [(''/p/a.py'', \<lparr>overrides = [normalize relation_example], lastModified = 100\<rparr>),
                (''/p/b.py'', \<lparr>overrides = [], lastModified = 150\<rparr>),
                (''/p/c.py'', \<lparr>overrides = [], lastModified = 50\<rparr>),
                (''/p/gone.py'', \<lparr>overrides = [], lastModified = 10\<rparr>)],
       dependencies = [(''/p/a.py'', [''/p/b.py'']), (''/p/c.py'', [''/p/a.py''])],
       lastScan = 0 \<rparr>"

definition cache_example :: intelligent_cache where
  "cache_example = \<lparr> projectIndex = index_example, cacheFile = None \<rparr>"

definition empty_cache :: intelligent_cache where
  \<comment> \<open>the index of lines 818--822, nothing persisted yet\<close>
  "empty_cache = \<lparr> projectIndex = \<lparr>files = [], dependencies = [], lastScan = 0\<rparr>,
                   cacheFile = None \<rparr>"

definition analyzer_example :: python_override_analyzer where
  \<comment> \<open>an initialized analyzer with a cold cache\<close>
  "analyzer_example = \<lparr> processManager = True, cache = empty_cache, isInitialized = True \<rparr>"

definition analyzer_cold :: python_override_analyzer where
  \<comment> \<open>the analyzer as constructed (lines 962--964), its cache empty\<close>
  "analyzer_cold = \<lparr> processManager = False, cache = empty_cache, isInitialized = False \<rparr>"

definition analyzer_warm :: python_override_analyzer where
  \<comment> \<open>an initialized analyzer whose cache holds \<open>index_example\<close>\<close>
  "analyzer_warm = \<lparr> processManager = True, cache = cache_example, isInitialized = True \<rparr>"

definition three_pending :: "event list" where
  \<comment> \<open>the worker starts, reports ready, and three requests are sent and not answered\<close>
  "three_pending =
     [Start False, StdoutData [ready_line],
      AnalyzeFile ''/p/a.py'' 10000 None, AnalyzeFile ''/p/b.py'' 10000 None,
      AnalyzeFile ''/p/c.py'' 10000 None]"

definition crash_restart :: "event list" where
  \<comment> \<open>the worker starts and reports ready, then exits; \<open>restart()\<close> disposes and starts
      a second process; \<open>analyzeFile\<close> is called before that process has printed anything\<close>
  "crash_restart = [Start False, StdoutData [ready_line], ProcessExit, Dispose, Start False,
            AnalyzeFile ''/p/a.py'' 10000 None]"

definition late_response :: response where
  \<comment> \<open>\<open>{"id":"req_1","result":[...]}\<close>\<close>
  "late_response = \<lparr>resp_type = None, resp_id = Some ''req_1'', resp_error = None,
                     resp_result = Some [relation_example]\<rparr>"

definition second_response :: response where
  \<comment> \<open>\<open>{"id":"req_2","result":[...]}\<close>\<close>
  "second_response = \<lparr>resp_type = None, resp_id = Some ''req_2'', resp_error = None,
                       resp_result = Some [relation_example]\<rparr>"

definition third_response :: response where
  \<comment> \<open>\<open>{"id":"req_3","error":"boom"}\<close>\<close>
  "third_response = \<lparr>resp_type = None, resp_id = Some ''req_3'', resp_error = Some ''boom'',
                      resp_result = None\<rparr>"

definition unknown_response :: response where
  \<comment> \<open>\<open>{"id":"req_9","result":[]}\<close>\<close>
  "unknown_response = \<lparr>resp_type = None, resp_id = Some ''req_9'', resp_error = None,
                        resp_result = Some []\<rparr>"

definition other_file_pending :: "editor_event list" where
  \<comment> \<open>another file has a timer pending\<close>
  "other_file_pending = [DidOpenTextDocument ''/p/b.py'' ''python'']"

definition burst :: "editor_event list" where
  \<comment> \<open>two edits and a save of one file, no timer firing in between\<close>
  "burst = [DidChangeTextDocument ''/p/a.py'' ''python'',
            DidChangeTextDocument ''/p/a.py'' ''python'',
            DidSaveTextDocument ''/p/a.py'' ''python'']"

definition open_then_close :: "editor_event list" where
  "open_then_close = [DidOpenTextDocument ''/p/a.py'' ''python'',
                      DidCloseTextDocument ''/p/a.py'' ''python'']"

definition editor_activated :: document_manager1 where
  \<comment> \<open>first module: the editor of \<open>/p/a.py\<close> became active, a timer is registered\<close>
  "editor_activated =
     dm1_step 1000 (ActiveEditorChanged (Some (''/p/a.py'', ''python''))) new_DocumentManager1"

definition overlapping_callback :: "editor_event1 list" where
  \<comment> \<open>first module: a timer fires, the file is scheduled again while the callback is
      awaiting, the callback settles, the document is closed\<close>
  "overlapping_callback =
     [ActiveEditorChanged (Some (''/p/a.py'', ''python'')), DebounceFires 0,
      ActiveEditorChanged (Some (''/p/a.py'', ''python'')), CallbackSettles 0 True,
      Closed ''/p/a.py'' ''python'']"

section \<open>Properties of the cache\<close>

lemma files_delete_simps [simp]:
  "files (projectIndex (files_delete p c)) = AList.delete p (files (projectIndex c))"
  "dependencies (projectIndex (files_delete p c)) = dependencies (projectIndex c)"
  "lastScan (projectIndex (files_delete p c)) = lastScan (projectIndex c)"
  "cacheFile (files_delete p c) = cacheFile c"
  by (simp_all add: files_delete_def)

lemma persistCache_projectIndex [simp]: "projectIndex (persistCache fs c) = projectIndex c"
  by (simp add: persistCache_def)

lemma findDependents_loop_set:
  "set (findDependents_loop p al) = {file. \<exists>deps. (file, deps) \<in> set al \<and> p \<in> set deps}"
  by (induction p al rule: findDependents_loop.induct) auto

lemma foldl_files_delete_deps [simp]:
  "dependencies (projectIndex (foldl (\<lambda>acc dep. files_delete dep acc) c ds)) =
   dependencies (projectIndex c)"
  by (induction ds arbitrary: c) simp_all

lemma foldl_files_delete_lookup:
  "map_of (files (projectIndex (foldl (\<lambda>acc dep. files_delete dep acc) c ds))) z =
   (if z \<in> set ds then None else map_of (files (projectIndex c)) z)"
  by (induction ds arbitrary: c) (auto simp: AList.delete_conv')

lemma findDependents_iff: "x \<in> set (findDependents y c) \<longleftrightarrow> dependsOn c x y"
  by (force simp: findDependents_def findDependents_loop_set dependsOn_def)

lemma findDependents_files_delete [simp]:
  "findDependents y (files_delete p c) = findDependents y c"
  by (simp add: findDependents_def)

text \<open>
  C10.  When \<open>statSync\<close> fails for the path, \<open>set\<close> returns the cache as it was: the
  index (entries, dependency map, \<open>lastScan\<close>) and the snapshot on disk are unchanged.
  The model of \<open>set\<close> has no error result because the source catches everything.
\<close>

theorem set_missing_file_is_noop:
  "statSync fs filePath = None \<Longrightarrow> IntelligentCache_set fs filePath ovs c = c"
  by (simp add: IntelligentCache_set_def)

theorem set_missing_file_is_noop_witness:
  "statSync fs_example ''/p/gone.py'' = None \<and>
   IntelligentCache_set fs_example ''/p/gone.py'' [normalize relation_example] cache_example
     = cache_example"
proof -
  have h: "statSync fs_example ''/p/gone.py'' = None"
    by (simp add: fs_example_def)
  show ?thesis
    using h set_missing_file_is_noop [OF h] by simp
qed

text \<open>
  C3.  After \<open>invalidateFile y\<close> the entry of a file \<open>z\<close> is gone exactly when \<open>z\<close> is
  \<open>y\<close> itself or the dependency row of \<open>z\<close> contains \<open>y\<close>; every other file keeps its
  entry, also one whose row contains an evicted dependent \<open>x\<close> but not \<open>y\<close> (single hop).
  The dependency map itself is not changed.
\<close>

theorem invalidateFile_single_hop:
  "map_of (files (projectIndex (invalidateFile fs y c))) z =
     (if z = y \<or> dependsOn c z y then None else map_of (files (projectIndex c)) z) \<and>
   dependencies (projectIndex (invalidateFile fs y c)) = dependencies (projectIndex c)"
  by (simp add: invalidateFile_def Let_def foldl_files_delete_lookup findDependents_iff
      AList.delete_conv')

theorem invalidateFile_single_hop_witness:
  "dependsOn cache_example ''/p/a.py'' ''/p/b.py'' \<and>
   dependsOn cache_example ''/p/c.py'' ''/p/a.py'' \<and>
   \<not> dependsOn cache_example ''/p/c.py'' ''/p/b.py'' \<and>
   map_of (files (projectIndex (invalidateFile fs_example ''/p/b.py'' cache_example))) ''/p/b.py''
     = None \<and>
   map_of (files (projectIndex (invalidateFile fs_example ''/p/b.py'' cache_example))) ''/p/a.py''
     = None \<and>
   map_of (files (projectIndex (invalidateFile fs_example ''/p/b.py'' cache_example))) ''/p/c.py''
     = Some \<lparr>overrides = [], lastModified = 50\<rparr>"
proof -
  have d: "dependsOn cache_example ''/p/a.py'' ''/p/b.py''"
    "dependsOn cache_example ''/p/c.py'' ''/p/a.py''"
    "\<not> dependsOn cache_example ''/p/c.py'' ''/p/b.py''"
    by (simp_all add: dependsOn_def cache_example_def index_example_def)
  have f: "map_of (files (projectIndex cache_example)) ''/p/c.py''
             = Some \<lparr>overrides = [], lastModified = 50\<rparr>"
    by (simp add: cache_example_def index_example_def)
  show ?thesis
    using d f
      invalidateFile_single_hop [of fs_example "''/p/b.py''" cache_example "''/p/b.py''"]
      invalidateFile_single_hop [of fs_example "''/p/b.py''" cache_example "''/p/a.py''"]
      invalidateFile_single_hop [of fs_example "''/p/b.py''" cache_example "''/p/c.py''"]
    by simp
qed

section \<open>Properties of the analyzer\<close>

lemma get_miss_no_entry:
  "fst (IntelligentCache_get fs f c) = None \<Longrightarrow>
   map_of (files (projectIndex (snd (IntelligentCache_get fs f c)))) f = None"
  by (auto simp: IntelligentCache_get_def AList.delete_conv' split: option.splits if_splits)

lemma get_keeps_rest [simp]:
  "dependencies (projectIndex (snd (IntelligentCache_get fs f c))) = dependencies (projectIndex c)"
  "cacheFile (snd (IntelligentCache_get fs f c)) = cacheFile c"
  by (auto simp: IntelligentCache_get_def split: option.splits if_splits)

lemma get_hit:
  "fst (IntelligentCache_get fs f c) = Some r \<Longrightarrow> IntelligentCache_get fs f c = (Some r, c)"
  by (auto simp: IntelligentCache_get_def split: option.splits if_splits)

lemma get_after_set:
  "statSync fs f = Some m \<Longrightarrow>
   IntelligentCache_get fs f (setDependencies fs f ds (IntelligentCache_set fs f ovs c)) =
     (Some ovs, setDependencies fs f ds (IntelligentCache_set fs f ovs c))"
  by (simp add: IntelligentCache_get_def setDependencies_def IntelligentCache_set_def
        AList.update_conv' Let_def)

lemma set_missing_lookup:
  "statSync fs f = None \<Longrightarrow> 
   map_of (files (projectIndex (setDependencies fs f ds (IntelligentCache_set fs f ovs c)))) f = map_of (files (projectIndex c)) f"
  by (simp add: setDependencies_def IntelligentCache_set_def Let_def)

lemma initialize_cache [simp]: "cache (fst (snd (initialize i a))) = cache a"
  by (simp add: initialize_def split: init_outcome.splits)

lemma analyzeFile_hit:
  assumes "fst (IntelligentCache_get fs f (cache a)) = Some r"
  shows "PythonOverrideAnalyzer_analyzeFile fs i w f a = (Returns r, a, [])"
  using get_hit [OF assms] by (simp add: PythonOverrideAnalyzer_analyzeFile_def)

lemma get_absent:
  "map_of (files (projectIndex c)) f = None \<Longrightarrow> IntelligentCache_get fs f c = (None, c)"
  by (simp add: IntelligentCache_get_def)

lemma analyzeFile_miss_started:
  assumes wf: "isInitialized a \<longrightarrow> processManager a"
      and miss: "fst (IntelligentCache_get fs f (cache a)) = None"
      and init: "isInitialized a \<or> init = Started"
  shows "PythonOverrideAnalyzer_analyzeFile fs init w f a =
     (case w of
        Inr result \<Rightarrow>
          (Returns (map normalize result),
           a\<lparr>cache := setDependencies fs f (collect_deps (map normalize result))
                  (IntelligentCache_set fs f (map normalize result)
                     (snd (IntelligentCache_get fs f (cache a)))),
              processManager := True, isInitialized := True\<rparr>,
           (if isInitialized a then [] else [CallStart]) @ [CallAnalyzeFile f])
      | Inl err \<Rightarrow>
          (Returns [],
           a\<lparr>cache := snd (IntelligentCache_get fs f (cache a)),
              processManager := True, isInitialized := True\<rparr>,
           (if isInitialized a then [] else [CallStart]) @ [CallAnalyzeFile f, CallRestart]))"
proof -
  obtain c1 where g: "IntelligentCache_get fs f (cache a) = (None, c1)"
    using miss by (cases "IntelligentCache_get fs f (cache a)") auto
  show ?thesis
    using wf init g
    by (cases w) (auto simp: PythonOverrideAnalyzer_analyzeFile_def initialize_def Let_def)
qed

lemma analyzeFile_miss_not_started:
  assumes miss: "fst (IntelligentCache_get fs f (cache a)) = None"
      and cold: "\<not> isInitialized a"
  shows "PythonOverrideAnalyzer_analyzeFile fs init w f a =
     (case init of
        ScriptNotFound \<Rightarrow>
          (Throws ScriptNotFoundError,
           a\<lparr>cache := snd (IntelligentCache_get fs f (cache a))\<rparr>, [])
      | StartThrows e \<Rightarrow>
          (Throws (StartError e),
           a\<lparr>cache := snd (IntelligentCache_get fs f (cache a)), processManager := True\<rparr>,
           [CallStart])
      | NeverReady \<Rightarrow>
          (Never,
           a\<lparr>cache := snd (IntelligentCache_get fs f (cache a)), processManager := True\<rparr>,
           [CallStart])
      | Started \<Rightarrow>
          PythonOverrideAnalyzer_analyzeFile fs Started w f a)"
proof -
  obtain c1 where g: "IntelligentCache_get fs f (cache a) = (None, c1)"
    using miss by (cases "IntelligentCache_get fs f (cache a)") auto
  show ?thesis
    using cold g
    by (cases init) (simp_all add: PythonOverrideAnalyzer_analyzeFile_def initialize_def)
qed

lemma second_after_hit:
  assumes h: "fst (IntelligentCache_get fs f (cache a)) = Some r"
  shows "resolve_twice fs i1 w1 i2 w2 f a = ((Returns r, a, []), (Returns r, a, []))"
  by (simp add: resolve_twice_def Let_def analyzeFile_hit [OF h])

lemma second_after_stored:
  assumes miss: "fst (IntelligentCache_get fs f (cache a)) = None"
      and wf: "isInitialized a \<longrightarrow> processManager a"
      and ini: "isInitialized a \<or> i1 = Started"
      and m: "statSync fs f = Some m"
  shows "fst (fst (resolve_twice fs i1 (Inr result) i2 w2 f a)) = Returns (map normalize result)"
    and "map_of (files (projectIndex (cache (fst (snd (fst
          (resolve_twice fs i1 (Inr result) i2 w2 f a))))))) f
        = Some \<lparr>overrides = map normalize result, lastModified = m\<rparr>"
    and "snd (resolve_twice fs i1 (Inr result) i2 w2 f a)
        = (Returns (map normalize result),
           fst (snd (fst (resolve_twice fs i1 (Inr result) i2 w2 f a))), [])"
proof -
  let ?ovs = "map normalize result"
  let ?c = "setDependencies fs f (collect_deps ?ovs)
              (IntelligentCache_set fs f ?ovs (snd (IntelligentCache_get fs f (cache a))))"
  let ?a1 = "a\<lparr>cache := ?c, processManager := True, isInitialized := True\<rparr>"
  let ?calls = "(if isInitialized a then [] else [CallStart]) @ [CallAnalyzeFile f]"
  have first: "PythonOverrideAnalyzer_analyzeFile fs i1 (Inr result) f a = (Returns ?ovs, ?a1, ?calls)"
    using analyzeFile_miss_started [OF wf miss ini, of "Inr result"] by simp
  have hit: "fst (IntelligentCache_get fs f (cache ?a1)) = Some ?ovs"
    using get_after_set [OF m, of "collect_deps ?ovs" ?ovs] by simp
  have second: "PythonOverrideAnalyzer_analyzeFile fs i2 w2 f ?a1 = (Returns ?ovs, ?a1, [])"
    by (rule analyzeFile_hit [OF hit])
  have rt: "resolve_twice fs i1 (Inr result) i2 w2 f a
              = ((Returns ?ovs, ?a1, ?calls), (Returns ?ovs, ?a1, []))"
    unfolding resolve_twice_def Let_def first fst_conv snd_conv second ..
  have entry: "map_of (files (projectIndex ?c)) f = Some \<lparr>overrides = ?ovs, lastModified = m\<rparr>"
    using m by (simp add: setDependencies_def IntelligentCache_set_def AList.update_conv')
  show "fst (fst (resolve_twice fs i1 (Inr result) i2 w2 f a)) = Returns ?ovs"
    unfolding rt by simp
  show "map_of (files (projectIndex (cache (fst (snd (fst
          (resolve_twice fs i1 (Inr result) i2 w2 f a))))))) f
        = Some \<lparr>overrides = ?ovs, lastModified = m\<rparr>"
    unfolding rt using entry by simp
  show "snd (resolve_twice fs i1 (Inr result) i2 w2 f a)
        = (Returns ?ovs, fst (snd (fst (resolve_twice fs i1 (Inr result) i2 w2 f a))), [])"
    unfolding rt by simp
qed

lemma first_call_state:
  assumes miss: "fst (IntelligentCache_get fs f (cache a)) = None"
      and wf: "isInitialized a \<longrightarrow> processManager a"
      and ini: "isInitialized a \<or> i1 = Started"
  shows "isInitialized (fst (snd (PythonOverrideAnalyzer_analyzeFile fs i1 w1 f a)))"
    and "processManager (fst (snd (PythonOverrideAnalyzer_analyzeFile fs i1 w1 f a)))"
    and "statSync fs f = None \<or> (\<exists>err. w1 = Inl err) \<Longrightarrow>
         map_of (files (projectIndex (cache (fst (snd
           (PythonOverrideAnalyzer_analyzeFile fs i1 w1 f a)))))) f = None"
proof -
  note st = analyzeFile_miss_started [OF wf miss ini, of w1]
  show "isInitialized (fst (snd (PythonOverrideAnalyzer_analyzeFile fs i1 w1 f a)))"
    unfolding st by (cases w1) simp_all
  show "processManager (fst (snd (PythonOverrideAnalyzer_analyzeFile fs i1 w1 f a)))"
    unfolding st by (cases w1) simp_all
  show "map_of (files (projectIndex (cache (fst (snd
           (PythonOverrideAnalyzer_analyzeFile fs i1 w1 f a)))))) f = None"
    if why: "statSync fs f = None \<or> (\<exists>err. w1 = Inl err)"
  proof (cases w1)
    case (Inl err)
    show ?thesis
      unfolding Inl using get_miss_no_entry [OF miss]
      by (simp add: analyzeFile_miss_started [OF wf miss ini, of "Inl err"])
  next
    case (Inr result)
    with why have "statSync fs f = None" by auto
    from set_missing_lookup [OF this, of "collect_deps (map normalize result)"
           "map normalize result" "snd (IntelligentCache_get fs f (cache a))"]
      get_miss_no_entry [OF miss]
    show ?thesis
      unfolding Inr
      by (simp add: analyzeFile_miss_started [OF wf miss ini, of "Inr result"])
  qed
qed

lemma second_after_nothing_cached:
  assumes miss: "fst (IntelligentCache_get fs f (cache a)) = None"
      and wf: "isInitialized a \<longrightarrow> processManager a"
      and ini: "isInitialized a \<or> i1 = Started"
      and why: "statSync fs f = None \<or> (\<exists>err. w1 = Inl err)"
  shows "map_of (files (projectIndex (cache (fst (snd (fst
          (resolve_twice fs i1 w1 i2 w2 f a))))))) f = None"
    and "snd (snd (snd (resolve_twice fs i1 w1 i2 w2 f a)))
        = CallAnalyzeFile f # (case w2 of Inl err \<Rightarrow> [CallRestart] | Inr result \<Rightarrow> [])"
proof -
  let ?a1 = "fst (snd (PythonOverrideAnalyzer_analyzeFile fs i1 w1 f a))"
  note fs1 = first_call_state [OF miss wf ini, of w1]
  have none: "map_of (files (projectIndex (cache ?a1))) f = None" by (rule fs1(3) [OF why])
  have miss2: "fst (IntelligentCache_get fs f (cache ?a1)) = None"
    by (simp add: get_absent [OF none])
  have wf2: "isInitialized ?a1 \<longrightarrow> processManager ?a1" using fs1(2) by simp
  note st2 = analyzeFile_miss_started [OF wf2 miss2 disjI1 [OF fs1(1)], of i2 w2]
  have fst_rt: "fst (resolve_twice fs i1 w1 i2 w2 f a) = PythonOverrideAnalyzer_analyzeFile fs i1 w1 f a"
    and snd_rt: "snd (resolve_twice fs i1 w1 i2 w2 f a) = PythonOverrideAnalyzer_analyzeFile fs i2 w2 f ?a1"
    by (simp_all add: resolve_twice_def Let_def)
  show "map_of (files (projectIndex (cache (fst (snd (fst
          (resolve_twice fs i1 w1 i2 w2 f a))))))) f = None"
    unfolding fst_rt by (rule none)
  show "snd (snd (snd (resolve_twice fs i1 w1 i2 w2 f a)))
        = CallAnalyzeFile f # (case w2 of Inl err \<Rightarrow> [CallRestart] | Inr result \<Rightarrow> [])"
    unfolding snd_rt st2 using fs1(1) by (cases w2) simp_all
qed

lemma dependency_row_written_for_missing_file:
  assumes miss: "fst (IntelligentCache_get fs f (cache a)) = None"
      and wf: "isInitialized a \<longrightarrow> processManager a"
      and ini: "isInitialized a \<or> i1 = Started"
  shows "map_of (dependencies (projectIndex (cache (fst (snd (fst
          (resolve_twice fs i1 (Inr result) i2 w2 f a))))))) f
        = Some (unique (filter (\<lambda>d. d \<noteq> []) (collect_deps (map normalize result))))"
proof -
  have fst_rt: "fst (resolve_twice fs i1 (Inr result) i2 w2 f a)
      = PythonOverrideAnalyzer_analyzeFile fs i1 (Inr result) f a"
    by (simp add: resolve_twice_def Let_def)
  show ?thesis
    unfolding fst_rt analyzeFile_miss_started [OF wf miss ini, of "Inr result"]
    by (simp add: setDependencies_def AList.update_conv')
qed

lemma get_entry:
  assumes "map_of (files (projectIndex c)) f = Some e"
  shows "IntelligentCache_get fs f c =
           (if fresh fs f e then (Some (overrides e), c) else (None, files_delete f c))"
  using assms
  by (auto simp: IntelligentCache_get_def fresh_def split: option.splits)

lemma first_call_example:
  "PythonOverrideAnalyzer_analyzeFile fs_example Started (Inr [relation_example]) ''/p/a.py''
      analyzer_example =
   (Returns [normalize relation_example],
    analyzer_example\<lparr>cache :=
      \<lparr> projectIndex =
          \<lparr> files = [(''/p/a.py'', \<lparr>overrides = [normalize relation_example], lastModified = 100\<rparr>)],
            dependencies = [(''/p/a.py'', [''/p/b.py''])], lastScan = 0 \<rparr>,
        cacheFile = Some
          \<lparr> files = [(''/p/a.py'', \<lparr>overrides = [normalize relation_example], lastModified = 100\<rparr>)],
            dependencies = [(''/p/a.py'', [''/p/b.py''])], lastScan = 0 \<rparr> \<rparr>\<rparr>,
    [CallAnalyzeFile ''/p/a.py''])"
  by (simp add: PythonOverrideAnalyzer_analyzeFile_def IntelligentCache_get_def
      analyzer_example_def empty_cache_def initialize_def fs_example_def Let_def
      IntelligentCache_set_def setDependencies_def persistCache_def truthy_def
      normalize_def relation_example_def)


text \<open>
  C4, as stated, fails where the worker fails on the first call.  \<open>/p/b.py\<close> has a cache
  entry older than the file; the first \<open>analyzeFile\<close> evicts it, the worker times out and
  the call returns the empty sequence; under the same file system the second call asks
  the worker again and returns what it answers.
\<close>

theorem second_resolve_after_failure_counterexample:
  "map_of (files (projectIndex (cache analyzer_warm))) ''/p/b.py''
     = Some \<lparr>overrides = [], lastModified = 150\<rparr> \<and>
   fst (fst (resolve_twice fs_example Started (Inl (AnalysisTimeout ''/p/b.py'')) Started
               (Inr [relation_example]) ''/p/b.py'' analyzer_warm)) = Returns [] \<and>
   fst (snd (resolve_twice fs_example Started (Inl (AnalysisTimeout ''/p/b.py'')) Started
               (Inr [relation_example]) ''/p/b.py'' analyzer_warm))
     = Returns [normalize relation_example] \<and>
   snd (snd (snd (resolve_twice fs_example Started (Inl (AnalysisTimeout ''/p/b.py'')) Started
               (Inr [relation_example]) ''/p/b.py'' analyzer_warm)))
     = [CallAnalyzeFile ''/p/b.py'']"
  by (simp add: resolve_twice_def PythonOverrideAnalyzer_analyzeFile_def IntelligentCache_get_def
      analyzer_warm_def cache_example_def index_example_def initialize_def fs_example_def
      Let_def files_delete_def)

text \<open>
  C4, amended.  For a file with a cache entry, \<open>get\<close> returns the stored relations exactly
  when the file can be stat'ed and its modification time is not greater than the stored
  \<open>lastModified\<close>, and then leaves the cache as it is; otherwise (the file is newer, or
  \<open>statSync\<close> fails) it reports a miss and the entry is evicted.  Consequently, for two
  \<open>analyzeFile\<close> calls under the same file system:
  if the first is a hit, both return the cached sequence, make no call on the process
  manager and change nothing;
  if the first misses, the analyzer is or becomes initialized, the worker answers and the
  file can be stat'ed, the first call stores the normalised answer under the file's
  modification time, and the second call returns the same sequence, makes no call on the
  process manager and changes nothing;
  if the first misses, the analyzer is or becomes initialized, and the worker request fails
  or the file cannot be stat'ed, the first call leaves no entry for the file and the second
  call sends a worker request again (when the worker answered for a file that cannot be
  stat'ed, the file's dependency row is written all the same).
\<close>

theorem get_hit_iff_fresh_and_second_resolve_hits:
  "(map_of (files (projectIndex c)) f = Some e \<longrightarrow>
      (fst (IntelligentCache_get fs f c) = Some (overrides e) \<longleftrightarrow> fresh fs f e) \<and>
      (fresh fs f e \<longrightarrow> IntelligentCache_get fs f c = (Some (overrides e), c)) \<and>
      (\<not> fresh fs f e \<longrightarrow>
         IntelligentCache_get fs f c = (None, files_delete f c) \<and>
         map_of (files (projectIndex (files_delete f c))) f = None)) \<and>
   (fst (IntelligentCache_get fs f (cache a)) = Some r \<longrightarrow>
      resolve_twice fs i1 w1 i2 w2 f a = ((Returns r, a, []), (Returns r, a, []))) \<and>
   (fst (IntelligentCache_get fs f (cache a)) = None \<and>
    (isInitialized a \<longrightarrow> processManager a) \<and> (isInitialized a \<or> i1 = Started) \<and>
    statSync fs f = Some m \<longrightarrow>
      fst (fst (resolve_twice fs i1 (Inr result) i2 w2 f a)) = Returns (map normalize result) \<and>
      map_of (files (projectIndex (cache (fst (snd (fst
          (resolve_twice fs i1 (Inr result) i2 w2 f a))))))) f
        = Some \<lparr>overrides = map normalize result, lastModified = m\<rparr> \<and>
      snd (resolve_twice fs i1 (Inr result) i2 w2 f a)
        = (Returns (map normalize result),
           fst (snd (fst (resolve_twice fs i1 (Inr result) i2 w2 f a))), [])) \<and>
   (fst (IntelligentCache_get fs f (cache a)) = None \<and>
    (isInitialized a \<longrightarrow> processManager a) \<and> (isInitialized a \<or> i1 = Started) \<and>
    (statSync fs f = None \<or> (\<exists>err. w1 = Inl err)) \<longrightarrow>
      map_of (files (projectIndex (cache (fst (snd (fst
          (resolve_twice fs i1 w1 i2 w2 f a))))))) f = None \<and>
      snd (snd (snd (resolve_twice fs i1 w1 i2 w2 f a)))
        = CallAnalyzeFile f # (case w2 of Inl err \<Rightarrow> [CallRestart] | Inr result \<Rightarrow> [])) \<and>
   (fst (IntelligentCache_get fs f (cache a)) = None \<and>
    (isInitialized a \<longrightarrow> processManager a) \<and> (isInitialized a \<or> i1 = Started) \<and>
    statSync fs f = None \<longrightarrow>
      map_of (dependencies (projectIndex (cache (fst (snd (fst
          (resolve_twice fs i1 (Inr result) i2 w2 f a))))))) f
        = Some (unique (filter (\<lambda>d. d \<noteq> []) (collect_deps (map normalize result)))))"
proof -
  have get_half: "map_of (files (projectIndex c)) f = Some e \<longrightarrow>
      (fst (IntelligentCache_get fs f c) = Some (overrides e) \<longleftrightarrow> fresh fs f e) \<and>
      (fresh fs f e \<longrightarrow> IntelligentCache_get fs f c = (Some (overrides e), c)) \<and>
      (\<not> fresh fs f e \<longrightarrow>
         IntelligentCache_get fs f c = (None, files_delete f c) \<and>
         map_of (files (projectIndex (files_delete f c))) f = None)"
  proof (rule impI)
    assume e: "map_of (files (projectIndex c)) f = Some e"
    show "(fst (IntelligentCache_get fs f c) = Some (overrides e) \<longleftrightarrow> fresh fs f e) \<and>
      (fresh fs f e \<longrightarrow> IntelligentCache_get fs f c = (Some (overrides e), c)) \<and>
      (\<not> fresh fs f e \<longrightarrow>
         IntelligentCache_get fs f c = (None, files_delete f c) \<and>
         map_of (files (projectIndex (files_delete f c))) f = None)"
      by (simp add: get_entry [OF e] AList.delete_conv')
  qed
  have hit: "fst (IntelligentCache_get fs f (cache a)) = Some r \<longrightarrow>
      resolve_twice fs i1 w1 i2 w2 f a = ((Returns r, a, []), (Returns r, a, []))"
    by (rule impI) (rule second_after_hit)
  have stored: "fst (IntelligentCache_get fs f (cache a)) = None \<and>
    (isInitialized a \<longrightarrow> processManager a) \<and> (isInitialized a \<or> i1 = Started) \<and>
    statSync fs f = Some m \<longrightarrow>
      fst (fst (resolve_twice fs i1 (Inr result) i2 w2 f a)) = Returns (map normalize result) \<and>
      map_of (files (projectIndex (cache (fst (snd (fst
          (resolve_twice fs i1 (Inr result) i2 w2 f a))))))) f
        = Some \<lparr>overrides = map normalize result, lastModified = m\<rparr> \<and>
      snd (resolve_twice fs i1 (Inr result) i2 w2 f a)
        = (Returns (map normalize result),
           fst (snd (fst (resolve_twice fs i1 (Inr result) i2 w2 f a))), [])"
  proof (rule impI, (erule conjE)+)
    assume h: "fst (IntelligentCache_get fs f (cache a)) = None"
      "isInitialized a \<longrightarrow> processManager a" "isInitialized a \<or> i1 = Started"
      "statSync fs f = Some m"
    note s = second_after_stored [OF h, of result i2 w2]
    show "fst (fst (resolve_twice fs i1 (Inr result) i2 w2 f a)) = Returns (map normalize result) \<and>
      map_of (files (projectIndex (cache (fst (snd (fst
          (resolve_twice fs i1 (Inr result) i2 w2 f a))))))) f
        = Some \<lparr>overrides = map normalize result, lastModified = m\<rparr> \<and>
      snd (resolve_twice fs i1 (Inr result) i2 w2 f a)
        = (Returns (map normalize result),
           fst (snd (fst (resolve_twice fs i1 (Inr result) i2 w2 f a))), [])"
      by (rule conjI [OF s(1) conjI [OF s(2) s(3)]])
  qed
  have uncached: "fst (IntelligentCache_get fs f (cache a)) = None \<and>
    (isInitialized a \<longrightarrow> processManager a) \<and> (isInitialized a \<or> i1 = Started) \<and>
    (statSync fs f = None \<or> (\<exists>err. w1 = Inl err)) \<longrightarrow>
      map_of (files (projectIndex (cache (fst (snd (fst
          (resolve_twice fs i1 w1 i2 w2 f a))))))) f = None \<and>
      snd (snd (snd (resolve_twice fs i1 w1 i2 w2 f a)))
        = CallAnalyzeFile f # (case w2 of Inl err \<Rightarrow> [CallRestart] | Inr result \<Rightarrow> [])"
  proof (rule impI, (erule conjE)+)
    assume h: "fst (IntelligentCache_get fs f (cache a)) = None"
      "isInitialized a \<longrightarrow> processManager a" "isInitialized a \<or> i1 = Started"
      "statSync fs f = None \<or> (\<exists>err. w1 = Inl err)"
    note s = second_after_nothing_cached [OF h, of i2 w2]
    show "map_of (files (projectIndex (cache (fst (snd (fst
          (resolve_twice fs i1 w1 i2 w2 f a))))))) f = None \<and>
      snd (snd (snd (resolve_twice fs i1 w1 i2 w2 f a)))
        = CallAnalyzeFile f # (case w2 of Inl err \<Rightarrow> [CallRestart] | Inr result \<Rightarrow> [])"
      by (rule conjI [OF s(1) s(2)])
  qed
  have row: "fst (IntelligentCache_get fs f (cache a)) = None \<and>
    (isInitialized a \<longrightarrow> processManager a) \<and> (isInitialized a \<or> i1 = Started) \<and>
    statSync fs f = None \<longrightarrow>
      map_of (dependencies (projectIndex (cache (fst (snd (fst
          (resolve_twice fs i1 (Inr result) i2 w2 f a))))))) f
        = Some (unique (filter (\<lambda>d. d \<noteq> []) (collect_deps (map normalize result))))"
  proof (rule impI, (erule conjE)+)
    assume h: "fst (IntelligentCache_get fs f (cache a)) = None"
      "isInitialized a \<longrightarrow> processManager a" "isInitialized a \<or> i1 = Started"
    show "map_of (dependencies (projectIndex (cache (fst (snd (fst
          (resolve_twice fs i1 (Inr result) i2 w2 f a))))))) f
        = Some (unique (filter (\<lambda>d. d \<noteq> []) (collect_deps (map normalize result))))"
      by (rule dependency_row_written_for_missing_file [OF h])
  qed
  show ?thesis
    by (rule conjI [OF get_half conjI [OF hit conjI [OF stored conjI [OF uncached row]]]])
qed

theorem get_hit_iff_fresh_and_second_resolve_hits_witness:
  "map_of (files (projectIndex cache_example)) ''/p/a.py''
     = Some \<lparr>overrides = [normalize relation_example], lastModified = 100\<rparr> \<and>
   fresh fs_example ''/p/a.py'' \<lparr>overrides = [normalize relation_example], lastModified = 100\<rparr> \<and>
   IntelligentCache_get fs_example ''/p/a.py'' cache_example
     = (Some [normalize relation_example], cache_example) \<and>
   map_of (files (projectIndex cache_example)) ''/p/b.py''
     = Some \<lparr>overrides = [], lastModified = 150\<rparr> \<and>
   \<not> fresh fs_example ''/p/b.py'' \<lparr>overrides = [], lastModified = 150\<rparr> \<and>
   IntelligentCache_get fs_example ''/p/b.py'' cache_example
     = (None, files_delete ''/p/b.py'' cache_example) \<and>
   fst (IntelligentCache_get fs_example ''/p/a.py'' (cache analyzer_warm))
     = Some [normalize relation_example] \<and>
   resolve_twice fs_example Started (Inl ProcessTerminated) Started (Inl ProcessTerminated)
       ''/p/a.py'' analyzer_warm
     = ((Returns [normalize relation_example], analyzer_warm, []),
        (Returns [normalize relation_example], analyzer_warm, [])) \<and>
   fst (IntelligentCache_get fs_example ''/p/a.py'' (cache analyzer_example)) = None \<and>
   isInitialized analyzer_example \<and> processManager analyzer_example \<and>
   statSync fs_example ''/p/a.py'' = Some 100 \<and>
   fst (fst (resolve_twice fs_example Started (Inr [relation_example]) Started
         (Inl ProcessTerminated) ''/p/a.py'' analyzer_example))
     = Returns [normalize relation_example] \<and>
   map_of (files (projectIndex (cache (fst (snd (fst
       (resolve_twice fs_example Started (Inr [relation_example]) Started
         (Inl ProcessTerminated) ''/p/a.py'' analyzer_example))))))) ''/p/a.py''
     = Some \<lparr>overrides = [normalize relation_example], lastModified = 100\<rparr> \<and>
   fst (snd (resolve_twice fs_example Started (Inr [relation_example]) Started
         (Inl ProcessTerminated) ''/p/a.py'' analyzer_example))
     = Returns [normalize relation_example] \<and>
   snd (snd (snd (resolve_twice fs_example Started (Inr [relation_example]) Started
         (Inl ProcessTerminated) ''/p/a.py'' analyzer_example))) = [] \<and>
   fst (IntelligentCache_get fs_example ''/p/gone.py'' (cache analyzer_example)) = None \<and>
   statSync fs_example ''/p/gone.py'' = None \<and>
   map_of (files (projectIndex (cache (fst (snd (fst
       (resolve_twice fs_example Started (Inr [relation_example]) Started
         (Inr [relation_example]) ''/p/gone.py'' analyzer_example))))))) ''/p/gone.py'' = None \<and>
   snd (snd (snd (resolve_twice fs_example Started (Inr [relation_example]) Started
         (Inr [relation_example]) ''/p/gone.py'' analyzer_example)))
     = [CallAnalyzeFile ''/p/gone.py''] \<and>
   map_of (dependencies (projectIndex (cache (fst (snd (fst
       (resolve_twice fs_example Started (Inr [relation_example]) Started
         (Inr [relation_example]) ''/p/gone.py'' analyzer_example))))))) ''/p/gone.py''
     = Some [''/p/b.py'']"
proof -
  let ?ea = "\<lparr>overrides = [normalize relation_example], lastModified = 100\<rparr>"
  let ?eb = "\<lparr>overrides = [], lastModified = 150::real\<rparr>"
  have a: "map_of (files (projectIndex cache_example)) ''/p/a.py'' = Some ?ea"
    and b: "map_of (files (projectIndex cache_example)) ''/p/b.py'' = Some ?eb"
    by (simp_all add: cache_example_def index_example_def)
  have fa: "fresh fs_example ''/p/a.py'' ?ea" and fb: "\<not> fresh fs_example ''/p/b.py'' ?eb"
    by (simp_all add: fresh_def fs_example_def)
  have hit: "fst (IntelligentCache_get fs_example ''/p/a.py'' (cache analyzer_warm))
               = Some [normalize relation_example]"
    by (simp add: IntelligentCache_get_def analyzer_warm_def cache_example_def index_example_def
        fs_example_def)
  have miss_a: "fst (IntelligentCache_get fs_example ''/p/a.py'' (cache analyzer_example)) = None"
    and miss_g: "fst (IntelligentCache_get fs_example ''/p/gone.py'' (cache analyzer_example)) = None"
    by (simp_all add: IntelligentCache_get_def analyzer_example_def empty_cache_def)
  have ready: "isInitialized analyzer_example" "processManager analyzer_example"
    by (simp_all add: analyzer_example_def)
  have stat_a: "statSync fs_example ''/p/a.py'' = Some 100"
    and stat_g: "statSync fs_example ''/p/gone.py'' = None"
    by (simp_all add: fs_example_def)
  have deps: "unique (filter (\<lambda>d. d \<noteq> []) (collect_deps (map normalize [relation_example])))
                = [''/p/b.py'']"
    by (simp add: normalize_def relation_example_def truthy_def)
  note ta = get_hit_iff_fresh_and_second_resolve_hits
      [where c = cache_example and f = "''/p/a.py''" and e = ?ea and fs = fs_example
         and a = analyzer_warm and r = "[normalize relation_example]"
         and ?i1.0 = Started and ?w1.0 = "Inl ProcessTerminated" and ?i2.0 = Started
         and ?w2.0 = "Inl ProcessTerminated"]
  note tb = get_hit_iff_fresh_and_second_resolve_hits
      [where c = cache_example and f = "''/p/b.py''" and e = ?eb and fs = fs_example]
  note tc = get_hit_iff_fresh_and_second_resolve_hits
      [where f = "''/p/a.py''" and fs = fs_example and a = analyzer_example and m = 100
         and result = "[relation_example]" and ?i1.0 = Started and ?i2.0 = Started
         and ?w2.0 = "Inl ProcessTerminated"]
  note td = get_hit_iff_fresh_and_second_resolve_hits
      [where f = "''/p/gone.py''" and fs = fs_example and a = analyzer_example
         and result = "[relation_example]" and ?i1.0 = Started and ?i2.0 = Started
         and ?w1.0 = "Inr [relation_example]" and ?w2.0 = "Inr [relation_example]"]
  from ta a fa have 1: "IntelligentCache_get fs_example ''/p/a.py'' cache_example
       = (Some [normalize relation_example], cache_example)"
    by simp
  from ta hit have 2: "resolve_twice fs_example Started (Inl ProcessTerminated) Started
       (Inl ProcessTerminated) ''/p/a.py'' analyzer_warm
     = ((Returns [normalize relation_example], analyzer_warm, []),
        (Returns [normalize relation_example], analyzer_warm, []))"
    by blast
  from tb b fb have 3: "IntelligentCache_get fs_example ''/p/b.py'' cache_example
       = (None, files_delete ''/p/b.py'' cache_example)"
    by simp
  from tc miss_a ready stat_a have 4:
    "fst (fst (resolve_twice fs_example Started (Inr [relation_example]) Started
         (Inl ProcessTerminated) ''/p/a.py'' analyzer_example))
       = Returns (map normalize [relation_example]) \<and>
     map_of (files (projectIndex (cache (fst (snd (fst
       (resolve_twice fs_example Started (Inr [relation_example]) Started
         (Inl ProcessTerminated) ''/p/a.py'' analyzer_example))))))) ''/p/a.py''
       = Some \<lparr>overrides = map normalize [relation_example], lastModified = 100\<rparr> \<and>
     snd (resolve_twice fs_example Started (Inr [relation_example]) Started
         (Inl ProcessTerminated) ''/p/a.py'' analyzer_example)
       = (Returns (map normalize [relation_example]),
          fst (snd (fst (resolve_twice fs_example Started (Inr [relation_example]) Started
            (Inl ProcessTerminated) ''/p/a.py'' analyzer_example))), [])"
    by blast
  from td miss_g ready stat_g have 5:
    "map_of (files (projectIndex (cache (fst (snd (fst
       (resolve_twice fs_example Started (Inr [relation_example]) Started
         (Inr [relation_example]) ''/p/gone.py'' analyzer_example))))))) ''/p/gone.py'' = None \<and>
     snd (snd (snd (resolve_twice fs_example Started (Inr [relation_example]) Started
         (Inr [relation_example]) ''/p/gone.py'' analyzer_example)))
       = CallAnalyzeFile ''/p/gone.py'' #
           (case (Inr [relation_example] :: link_error + raw_info list) of
              Inl err \<Rightarrow> [CallRestart] | Inr result \<Rightarrow> [])"
    by blast
  from td miss_g ready stat_g have 6:
    "map_of (dependencies (projectIndex (cache (fst (snd (fst
       (resolve_twice fs_example Started (Inr [relation_example]) Started
         (Inr [relation_example]) ''/p/gone.py'' analyzer_example))))))) ''/p/gone.py''
       = Some (unique (filter (\<lambda>d. d \<noteq> []) (collect_deps (map normalize [relation_example]))))"
    by blast
  from a fa 1 b fb 3 hit 2 miss_a ready stat_a 4 miss_g stat_g 5 6 deps show ?thesis
    by simp
qed

text \<open>
  C5, as stated, fails for a start-up failure.  \<open>analyzeFile\<close> calls \<open>initialize()\<close> before
  its \<open>try\<close> (lines 1004--1006): when the analyzer is not yet initialized and \<open>start()\<close>
  throws a spawn error, the error is propagated to the caller and no restart is triggered.
\<close>

theorem lazy_start_failure_propagates_counterexample:
  "PythonOverrideAnalyzer_analyzeFile fs_example (StartThrows ''spawn E2BIG'')
       (Inl ProcessTerminated) ''/p/a.py'' analyzer_cold
     = (Throws (StartError ''spawn E2BIG''), analyzer_cold\<lparr>processManager := True\<rparr>, [CallStart])"
  by (simp add: PythonOverrideAnalyzer_analyzeFile_def IntelligentCache_get_def analyzer_cold_def
      empty_cache_def initialize_def)

text \<open>
  C5, amended.  On a cache miss, when the analyzer is or becomes initialized and the
  process manager's \<open>analyzeFile\<close> fails with any error (timeout, process terminated, error
  response, write error), the analyzer returns the empty sequence and not an error and
  calls \<open>restart\<close> after the failed call (what \<open>restart\<close> does or throws is not looked
  at).  When the analyzer is not initialized and initialisation fails, nothing is
  recovered and no restart is triggered: a spawn error thrown by \<open>start()\<close> and a missing
  script are propagated to the caller, and when the worker never reports ready the call
  does not return.  In all these cases the cache is the one \<open>get\<close> left: no entry for the
  file, the dependency map and the snapshot on disk untouched.
\<close>

theorem analyzeFile_worker_failure_gives_empty:
  assumes miss: "fst (IntelligentCache_get fs f (cache a)) = None"
  shows "((isInitialized a \<longrightarrow> processManager a) \<and> (isInitialized a \<or> init = Started) \<longrightarrow>
            PythonOverrideAnalyzer_analyzeFile fs init (Inl err) f a =
              (Returns [],
               a\<lparr>cache := snd (IntelligentCache_get fs f (cache a)),
                  processManager := True, isInitialized := True\<rparr>,
               (if isInitialized a then [] else [CallStart]) @ [CallAnalyzeFile f, CallRestart])) \<and>
         (\<not> isInitialized a \<and> init = StartThrows e \<longrightarrow>
            PythonOverrideAnalyzer_analyzeFile fs init w f a =
              (Throws (StartError e),
               a\<lparr>cache := snd (IntelligentCache_get fs f (cache a)), processManager := True\<rparr>,
               [CallStart])) \<and>
         (\<not> isInitialized a \<and> init = ScriptNotFound \<longrightarrow>
            PythonOverrideAnalyzer_analyzeFile fs init w f a =
              (Throws ScriptNotFoundError,
               a\<lparr>cache := snd (IntelligentCache_get fs f (cache a))\<rparr>, [])) \<and>
         (\<not> isInitialized a \<and> init = NeverReady \<longrightarrow>
            PythonOverrideAnalyzer_analyzeFile fs init w f a =
              (Never,
               a\<lparr>cache := snd (IntelligentCache_get fs f (cache a)), processManager := True\<rparr>,
               [CallStart])) \<and>
         map_of (files (projectIndex (snd (IntelligentCache_get fs f (cache a))))) f = None \<and>
         dependencies (projectIndex (snd (IntelligentCache_get fs f (cache a))))
           = dependencies (projectIndex (cache a)) \<and>
         cacheFile (snd (IntelligentCache_get fs f (cache a))) = cacheFile (cache a)"
proof (intro conjI impI)
  assume "(isInitialized a \<longrightarrow> processManager a) \<and> (isInitialized a \<or> init = Started)"
  then have wf: "isInitialized a \<longrightarrow> processManager a" and ini: "isInitialized a \<or> init = Started"
    by blast+
  from analyzeFile_miss_started [OF wf miss ini, of "Inl err"]
  show "PythonOverrideAnalyzer_analyzeFile fs init (Inl err) f a =
              (Returns [],
               a\<lparr>cache := snd (IntelligentCache_get fs f (cache a)),
                  processManager := True, isInitialized := True\<rparr>,
               (if isInitialized a then [] else [CallStart]) @ [CallAnalyzeFile f, CallRestart])"
    by simp
next
  assume "\<not> isInitialized a \<and> init = StartThrows e"
  with analyzeFile_miss_not_started [OF miss, of init w]
  show "PythonOverrideAnalyzer_analyzeFile fs init w f a =
              (Throws (StartError e),
               a\<lparr>cache := snd (IntelligentCache_get fs f (cache a)), processManager := True\<rparr>,
               [CallStart])" by simp
next
  assume "\<not> isInitialized a \<and> init = ScriptNotFound"
  with analyzeFile_miss_not_started [OF miss, of init w]
  show "PythonOverrideAnalyzer_analyzeFile fs init w f a =
              (Throws ScriptNotFoundError,
               a\<lparr>cache := snd (IntelligentCache_get fs f (cache a))\<rparr>, [])" by simp
next
  assume "\<not> isInitialized a \<and> init = NeverReady"
  with analyzeFile_miss_not_started [OF miss, of init w]
  show "PythonOverrideAnalyzer_analyzeFile fs init w f a =
              (Never,
               a\<lparr>cache := snd (IntelligentCache_get fs f (cache a)), processManager := True\<rparr>,
               [CallStart])" by simp
next
  show "map_of (files (projectIndex (snd (IntelligentCache_get fs f (cache a))))) f = None"
    by (rule get_miss_no_entry [OF miss])
qed simp_all

theorem analyzeFile_worker_failure_gives_empty_witness:
  "fst (IntelligentCache_get fs_example ''/p/a.py'' (cache analyzer_example)) = None \<and>
   processManager analyzer_example \<and> isInitialized analyzer_example \<and>
   PythonOverrideAnalyzer_analyzeFile fs_example Started
       (Inl (AnalysisTimeout ''/p/a.py'')) ''/p/a.py'' analyzer_example
     = (Returns [], analyzer_example, [CallAnalyzeFile ''/p/a.py'', CallRestart]) \<and>
   fst (IntelligentCache_get fs_example ''/p/a.py'' (cache analyzer_cold)) = None \<and>
   \<not> isInitialized analyzer_cold \<and>
   PythonOverrideAnalyzer_analyzeFile fs_example (StartThrows ''spawn E2BIG'')
       (Inr [relation_example]) ''/p/a.py'' analyzer_cold
     = (Throws (StartError ''spawn E2BIG''), analyzer_cold\<lparr>processManager := True\<rparr>,
        [CallStart]) \<and>
   PythonOverrideAnalyzer_analyzeFile fs_example ScriptNotFound
       (Inr [relation_example]) ''/p/a.py'' analyzer_cold
     = (Throws ScriptNotFoundError, analyzer_cold, []) \<and>
   PythonOverrideAnalyzer_analyzeFile fs_example NeverReady
       (Inr [relation_example]) ''/p/a.py'' analyzer_cold
     = (Never, analyzer_cold\<lparr>processManager := True\<rparr>, [CallStart])"
proof -
  have g: "IntelligentCache_get fs_example ''/p/a.py'' (cache analyzer_example)
             = (None, cache analyzer_example)"
    and gc: "IntelligentCache_get fs_example ''/p/a.py'' (cache analyzer_cold)
             = (None, cache analyzer_cold)"
    by (simp_all add: IntelligentCache_get_def analyzer_example_def analyzer_cold_def
        empty_cache_def)
  have miss: "fst (IntelligentCache_get fs_example ''/p/a.py'' (cache analyzer_example)) = None"
    and miss_c: "fst (IntelligentCache_get fs_example ''/p/a.py'' (cache analyzer_cold)) = None"
    by (simp_all add: g gc)
  have ready: "processManager analyzer_example" "isInitialized analyzer_example"
    and cold: "\<not> isInitialized analyzer_cold"
    by (simp_all add: analyzer_example_def analyzer_cold_def)
  have same: "analyzer_example\<lparr>cache := cache analyzer_example, processManager := True,
                isInitialized := True\<rparr> = analyzer_example"
    "analyzer_cold\<lparr>cache := cache analyzer_cold\<rparr> = analyzer_cold"
    "analyzer_cold\<lparr>cache := cache analyzer_cold, processManager := True\<rparr>
       = analyzer_cold\<lparr>processManager := True\<rparr>"
    by (simp_all add: analyzer_example_def analyzer_cold_def)
  note t1 = analyzeFile_worker_failure_gives_empty
      [OF miss, where init = Started and err = "AnalysisTimeout ''/p/a.py''"]
  note t2 = analyzeFile_worker_failure_gives_empty
      [OF miss_c, where init = "StartThrows ''spawn E2BIG''" and e = "''spawn E2BIG''"
         and w = "Inr [relation_example]"]
  note t3 = analyzeFile_worker_failure_gives_empty
      [OF miss_c, where init = ScriptNotFound and w = "Inr [relation_example]"]
  note t4 = analyzeFile_worker_failure_gives_empty
      [OF miss_c, where init = NeverReady and w = "Inr [relation_example]"]
  from t1 ready g same have 1: "PythonOverrideAnalyzer_analyzeFile fs_example Started
       (Inl (AnalysisTimeout ''/p/a.py'')) ''/p/a.py'' analyzer_example
     = (Returns [], analyzer_example, [CallAnalyzeFile ''/p/a.py'', CallRestart])"
    by simp
  from t2 cold gc same have 2: "PythonOverrideAnalyzer_analyzeFile fs_example
       (StartThrows ''spawn E2BIG'') (Inr [relation_example]) ''/p/a.py'' analyzer_cold
     = (Throws (StartError ''spawn E2BIG''), analyzer_cold\<lparr>processManager := True\<rparr>,
        [CallStart])"
    by simp
  from t3 cold gc same have 3: "PythonOverrideAnalyzer_analyzeFile fs_example ScriptNotFound
       (Inr [relation_example]) ''/p/a.py'' analyzer_cold
     = (Throws ScriptNotFoundError, analyzer_cold, [])"
    by simp
  from t4 cold gc same have 4: "PythonOverrideAnalyzer_analyzeFile fs_example NeverReady
       (Inr [relation_example]) ''/p/a.py'' analyzer_cold
     = (Never, analyzer_cold\<lparr>processManager := True\<rparr>, [CallStart])"
    by simp
  from miss ready 1 miss_c cold 2 3 4 show ?thesis by blast
qed

lemma analyzeFile_keeps_wf:
  assumes "isInitialized a \<longrightarrow> processManager a"
  shows "isInitialized (fst (snd (PythonOverrideAnalyzer_analyzeFile fs init w f a))) \<longrightarrow>
         processManager (fst (snd (PythonOverrideAnalyzer_analyzeFile fs init w f a)))"
  using assms
  by (auto simp: PythonOverrideAnalyzer_analyzeFile_def initialize_def Let_def
      split: prod.splits option.splits sum.splits init_outcome.splits awaited.splits if_splits)

section \<open>Properties of the process manager\<close>

lemma digit_inj: "a < 10 \<Longrightarrow> b < 10 \<Longrightarrow> digit a = digit b \<Longrightarrow> a = b"
proof -
  assume a: "a < 10" and b: "b < 10" and e: "digit a = digit b"
  have d: "distinct ''0123456789''" by simp
  have l: "length ''0123456789'' = 10" by simp
  from a b e d l show "a = b"
    unfolding digit_def by (metis nth_eq_iff_index_eq)
qed

lemma decimal_nonempty: "decimal n \<noteq> []"
  by (subst decimal.simps) simp

lemma decimal_small: "n < 10 \<Longrightarrow> decimal n = [digit n]"
  by (subst decimal.simps) simp

lemma decimal_large: "\<not> n < 10 \<Longrightarrow> decimal n = decimal (n div 10) @ [digit (n mod 10)]"
  by (subst decimal.simps) simp

lemma decimal_inj: "decimal m = decimal n \<Longrightarrow> m = n"
proof (induction m arbitrary: n rule: decimal.induct)
  case (1 m)
  show ?case
  proof (cases "m < 10")
    case m: True
    show ?thesis
    proof (cases "n < 10")
      case True
      with m "1.prems" show ?thesis
        by (simp add: decimal_small digit_inj)
    next
      case False
      with m "1.prems" decimal_nonempty [of "n div 10"] show ?thesis
        by (simp add: decimal_small decimal_large)
    qed
  next
    case m: False
    show ?thesis
    proof (cases "n < 10")
      case True
      with m "1.prems" decimal_nonempty [of "m div 10"] show ?thesis
        by (simp add: decimal_small decimal_large)
    next
      case False
      with m "1.prems" have e: "decimal (m div 10) = decimal (n div 10)"
        and d: "digit (m mod 10) = digit (n mod 10)"
        by (simp_all add: decimal_large)
      from "1.IH" [OF m e] have "m div 10 = n div 10" .
      moreover from d have "m mod 10 = n mod 10"
        by (intro digit_inj) simp_all
      ultimately show ?thesis
        by (metis div_mult_mod_eq)
    qed
  qed
qed

lemma request_id_inj [simp]: "request_id m = request_id n \<longleftrightarrow> m = n"
  by (auto simp: request_id_def dest: decimal_inj)

lemma set_delete: "set (AList.delete k al) = {p \<in> set al. fst p \<noteq> k}"
  by (auto simp: AList.delete_eq)

lemma keys_delete: "fst ` set (AList.delete k al) = fst ` set al - {k}"
  by (force simp: set_delete)

lemma update_fresh: "k \<notin> fst ` set al \<Longrightarrow> AList.update k v al = al @ [(k, v)]"
  by (induction al) (auto split: if_splits)

lemma delete_fresh: "k \<notin> fst ` set al \<Longrightarrow> AList.delete k al = al"
  by (induction al) (auto split: if_splits)

lemma inv_entry:
  assumes "manager_inv s" "(k, n) \<in> set (pendingRequests s)"
  shows "k = request_id n" "n \<le> messageId s" "n \<in> fst ` set (timeouts s)"
proof -
  from assms have "fst (k, n) = request_id (snd (k, n)) \<and> snd (k, n) \<le> messageId s \<and>
      snd (k, n) \<in> fst ` set (timeouts s)"
    unfolding manager_inv_def by blast
  then show "k = request_id n" "n \<le> messageId s" "n \<in> fst ` set (timeouts s)"
    by simp_all
qed

lemma inv_armed:
  assumes "manager_inv s" "(h, t) \<in> set (timeouts s)"
  shows "t_id t = request_id h" "h \<le> messageId s"
        "(request_id h, h) \<in> set (pendingRequests s)"
proof -
  from assms have "t_id (snd (h, t)) = request_id (fst (h, t)) \<and> fst (h, t) \<le> messageId s \<and>
      (request_id (fst (h, t)), fst (h, t)) \<in> set (pendingRequests s)"
    unfolding manager_inv_def by blast
  then show "t_id t = request_id h" "h \<le> messageId s"
        "(request_id h, h) \<in> set (pendingRequests s)"
    by simp_all
qed

lemma inv_done:
  assumes "manager_inv s" "(n, r) \<in> set (settled s)"
  shows "n \<le> messageId s" "request_id n \<notin> fst ` set (pendingRequests s)"
proof -
  from assms have "fst (n, r) \<le> messageId s \<and>
      request_id (fst (n, r)) \<notin> fst ` set (pendingRequests s)"
    unfolding manager_inv_def by blast
  then show "n \<le> messageId s" "request_id n \<notin> fst ` set (pendingRequests s)"
    by simp_all
qed

lemma inv_distinct:
  assumes "manager_inv s"
  shows "distinct (map fst (pendingRequests s))" "distinct (map fst (timeouts s))"
        "distinct (map fst (settled s))"
  using assms unfolding manager_inv_def by blast+

lemma inv_pending:
  assumes "manager_inv s" "map_of (pendingRequests s) k = Some n"
  shows "k = request_id n" "n \<le> messageId s" "n \<in> fst ` set (timeouts s)"
  using inv_entry [OF assms(1) map_of_SomeD [OF assms(2)]] by blast+

lemma inv_timer:
  assumes "manager_inv s" "map_of (timeouts s) h = Some t"
  shows "t_id t = request_id h" "h \<le> messageId s"
        "(request_id h, h) \<in> set (pendingRequests s)"
  using inv_armed [OF assms(1) map_of_SomeD [OF assms(2)]] by blast+

lemma inv_fresh_key:
  assumes "manager_inv s" "messageId s < n"
  shows "request_id n \<notin> fst ` set (pendingRequests s)"
proof
  assume "request_id n \<in> fst ` set (pendingRequests s)"
  then obtain m where m: "(request_id n, m) \<in> set (pendingRequests s)" by force
  from inv_entry(1,2) [OF assms(1) m] assms(2) show False by simp
qed

lemma inv_fresh_timer:
  assumes "manager_inv s" "messageId s < n"
  shows "n \<notin> fst ` set (timeouts s)"
proof
  assume "n \<in> fst ` set (timeouts s)"
  then obtain t where t: "(n, t) \<in> set (timeouts s)" by force
  from inv_armed(2) [OF assms(1) t] assms(2) show False by simp
qed

lemma inv_fresh_settled:
  assumes "manager_inv s" "messageId s < n"
  shows "n \<notin> fst ` set (settled s)"
proof
  assume "n \<in> fst ` set (settled s)"
  then obtain r where r: "(n, r) \<in> set (settled s)" by force
  from inv_done(1) [OF assms(1) r] assms(2) show False by simp
qed

lemma invI:
  assumes "\<And>k n. (k, n) \<in> set (pendingRequests s) \<Longrightarrow>
              k = request_id n \<and> n \<le> messageId s \<and> n \<in> fst ` set (timeouts s)"
    and "distinct (map fst (pendingRequests s))"
    and "\<And>h t. (h, t) \<in> set (timeouts s) \<Longrightarrow>
              t_id t = request_id h \<and> h \<le> messageId s \<and>
              (request_id h, h) \<in> set (pendingRequests s)"
    and "distinct (map fst (timeouts s))"
    and "\<And>n r. (n, r) \<in> set (settled s) \<Longrightarrow>
              n \<le> messageId s \<and> request_id n \<notin> fst ` set (pendingRequests s)"
    and "distinct (map fst (settled s))"
  shows "manager_inv s"
  unfolding manager_inv_def
proof (intro conjI ballI)
  fix entry assume "entry \<in> set (pendingRequests s)"
  then have "(fst entry, snd entry) \<in> set (pendingRequests s)" by simp
  from assms(1) [OF this]
  show "fst entry = request_id (snd entry)" "snd entry \<le> messageId s"
    "snd entry \<in> fst ` set (timeouts s)" by blast+
next
  fix timer assume "timer \<in> set (timeouts s)"
  then have "(fst timer, snd timer) \<in> set (timeouts s)" by simp
  from assms(3) [OF this]
  show "t_id (snd timer) = request_id (fst timer)" "fst timer \<le> messageId s"
    "(request_id (fst timer), fst timer) \<in> set (pendingRequests s)" by blast+
next
  fix d assume "d \<in> set (settled s)"
  then have "(fst d, snd d) \<in> set (settled s)" by simp
  from assms(5) [OF this]
  show "fst d \<le> messageId s" "request_id (fst d) \<notin> fst ` set (pendingRequests s)" by blast+
qed (use assms(2,4,6) in blast)+

lemma inv_new: "manager_inv new_PythonProcessManager"
  by (simp add: manager_inv_def new_PythonProcessManager_def)

lemma inv_fields:
  assumes "pendingRequests s' = pendingRequests s" "timeouts s' = timeouts s"
    "settled s' = settled s" "messageId s' = messageId s"
  shows "manager_inv s' = manager_inv s"
  unfolding manager_inv_def assms ..

lemma inv_start: "manager_inv (start b s) = manager_inv s"
  by (rule inv_fields) (simp_all add: start_def split: option.splits)

lemma inv_remove:
  assumes inv: "manager_inv s" and p: "(request_id n, n) \<in> set (pendingRequests s)"
  shows "manager_inv (s\<lparr>timeouts := AList.delete n (timeouts s),
            pendingRequests := AList.delete (request_id n) (pendingRequests s),
            settled := settled s @ [(n, r)]\<rparr>)" (is "manager_inv ?s'")
proof (rule invI)
  fix k m assume "(k, m) \<in> set (pendingRequests ?s')"
  then have e: "(k, m) \<in> set (pendingRequests s)" and ne: "k \<noteq> request_id n"
    by (auto simp: set_delete)
  from inv_entry [OF inv e] ne
  show "k = request_id m \<and> m \<le> messageId ?s' \<and> m \<in> fst ` set (timeouts ?s')"
    by (auto simp: keys_delete)
next
  fix h t assume "(h, t) \<in> set (timeouts ?s')"
  then have e: "(h, t) \<in> set (timeouts s)" and ne: "h \<noteq> n"
    by (auto simp: set_delete)
  from inv_armed [OF inv e] ne
  show "t_id t = request_id h \<and> h \<le> messageId ?s' \<and>
        (request_id h, h) \<in> set (pendingRequests ?s')"
    by (auto simp: set_delete)
next
  fix m r' assume "(m, r') \<in> set (settled ?s')"
  then have "m = n \<or> (m, r') \<in> set (settled s)" by auto
  then show "m \<le> messageId ?s' \<and> request_id m \<notin> fst ` set (pendingRequests ?s')"
  proof
    assume "m = n"
    with inv_entry(2) [OF inv p] show ?thesis by (simp add: keys_delete)
  next
    assume "(m, r') \<in> set (settled s)"
    from inv_done [OF inv this] show ?thesis by (simp add: keys_delete)
  qed
next
  have "n \<notin> fst ` set (settled s)"
  proof
    assume "n \<in> fst ` set (settled s)"
    then obtain r' where "(n, r') \<in> set (settled s)" by force
    from inv_done(2) [OF inv this] p show False by force
  qed
  then show "distinct (map fst (settled ?s'))"
    using inv_distinct(3) [OF inv] by simp
next
  show "distinct (map fst (pendingRequests ?s'))"
    using inv_distinct(1) [OF inv] by (simp add: AList.distinct_delete)
next
  show "distinct (map fst (timeouts ?s'))"
    using inv_distinct(2) [OF inv] by (simp add: AList.distinct_delete)
qed

lemma inv_handleResponse: "manager_inv s \<Longrightarrow> manager_inv (handleResponse r s)"
proof -
  assume inv: "manager_inv s"
  show ?thesis
  proof (cases "resp_id r")
    case None
    with inv show ?thesis by (simp add: handleResponse_def)
  next
    case (Some k)
    show ?thesis
    proof (cases "map_of (pendingRequests s) k")
      case None
      with Some inv show ?thesis by (simp add: handleResponse_def)
    next
      case n: (Some n)
      from inv_pending(1) [OF inv n] have k: "k = request_id n" .
      with n have "(request_id n, n) \<in> set (pendingRequests s)"
        by (auto dest: map_of_SomeD)
      from inv_remove [OF inv this] Some n k show ?thesis
        by (simp add: handleResponse_def)
    qed
  qed
qed

lemma inv_timeout_callback: "manager_inv s \<Longrightarrow> manager_inv (timeout_callback h s)"
proof -
  assume inv: "manager_inv s"
  show ?thesis
  proof (cases "map_of (timeouts s) h")
    case None
    with inv show ?thesis by (simp add: timeout_callback_def)
  next
    case (Some t)
    from inv_timer [OF inv Some] have t: "t_id t = request_id h"
      and p: "(request_id h, h) \<in> set (pendingRequests s)"
      by (auto dest: map_of_SomeD)
    from inv_remove [OF inv p] Some t show ?thesis
      by (simp add: timeout_callback_def)
  qed
qed

lemma inv_register:
  assumes inv: "manager_inv s"
  shows "manager_inv (s\<lparr>messageId := messageId s + 1,
            timeouts := timeouts s @ [(messageId s + 1,
               \<lparr>t_id = request_id (messageId s + 1), t_filePath = fp, t_ms = ms\<rparr>)],
            pendingRequests := pendingRequests s @
               [(request_id (messageId s + 1), messageId s + 1)]\<rparr>)" (is "manager_inv ?s'")
proof (rule invI)
  fix k m assume "(k, m) \<in> set (pendingRequests ?s')"
  then have "(k, m) \<in> set (pendingRequests s) \<or> k = request_id (messageId s + 1) \<and> m = messageId s + 1"
    by auto
  then show "k = request_id m \<and> m \<le> messageId ?s' \<and> m \<in> fst ` set (timeouts ?s')"
    using inv_entry [OF inv, of k m] by auto
next
  fix h t assume "(h, t) \<in> set (timeouts ?s')"
  then have "(h, t) \<in> set (timeouts s) \<or>
      h = messageId s + 1 \<and> t_id t = request_id (messageId s + 1)"
    by auto
  then show "t_id t = request_id h \<and> h \<le> messageId ?s' \<and>
     (request_id h, h) \<in> set (pendingRequests ?s')"
    using inv_armed [OF inv, of h t] by auto
next
  fix m r assume "(m, r) \<in> set (settled ?s')"
  then have d: "(m, r) \<in> set (settled s)" by simp
  from inv_done [OF inv d]
  show "m \<le> messageId ?s' \<and> request_id m \<notin> fst ` set (pendingRequests ?s')"
    by auto
next
  show "distinct (map fst (settled ?s'))"
    using inv_distinct(3) [OF inv] by simp
next
  show "distinct (map fst (pendingRequests ?s'))"
    using inv_distinct(1) [OF inv] inv_fresh_key [OF inv, of "messageId s + 1"] by simp
next
  show "distinct (map fst (timeouts ?s'))"
    using inv_distinct(2) [OF inv] inv_fresh_timer [OF inv, of "messageId s + 1"] by simp
qed

lemma inv_write_failed:
  assumes inv: "manager_inv s"
  shows "manager_inv (s\<lparr>messageId := messageId s + 1,
            settled := settled s @ [(messageId s + 1, r)]\<rparr>)" (is "manager_inv ?s'")
proof (rule invI)
  fix k m assume "(k, m) \<in> set (pendingRequests ?s')"
  then have "(k, m) \<in> set (pendingRequests s)" by simp
  from inv_entry [OF inv this]
  show "k = request_id m \<and> m \<le> messageId ?s' \<and> m \<in> fst ` set (timeouts ?s')" by simp
next
  fix h t assume "(h, t) \<in> set (timeouts ?s')"
  then have "(h, t) \<in> set (timeouts s)" by simp
  from inv_armed [OF inv this]
  show "t_id t = request_id h \<and> h \<le> messageId ?s' \<and>
     (request_id h, h) \<in> set (pendingRequests ?s')" by simp
next
  fix m r' assume "(m, r') \<in> set (settled ?s')"
  then have "m = messageId s + 1 \<or> (m, r') \<in> set (settled s)" by auto
  then show "m \<le> messageId ?s' \<and> request_id m \<notin> fst ` set (pendingRequests ?s')"
    using inv_done [OF inv, of m r'] inv_fresh_key [OF inv, of "messageId s + 1"] by auto
next
  show "distinct (map fst (settled ?s'))"
    using inv_distinct(3) [OF inv] inv_fresh_settled [OF inv, of "messageId s + 1"] by simp
next
  show "distinct (map fst (pendingRequests ?s'))"
    using inv_distinct(1) [OF inv] by simp
next
  show "distinct (map fst (timeouts ?s'))"
    using inv_distinct(2) [OF inv] by simp
qed

lemma send_cases:
  assumes inv: "manager_inv s"
  shows "send fp ms we s =
     (let s1 = s\<lparr>messageId := messageId s + 1,
            timeouts := timeouts s @ [(messageId s + 1,
               \<lparr>t_id = request_id (messageId s + 1), t_filePath = fp, t_ms = ms\<rparr>)],
            pendingRequests := pendingRequests s @
               [(request_id (messageId s + 1), messageId s + 1)]\<rparr>
      in case pythonProcess s of
           None \<Rightarrow> s1
         | Some p \<Rightarrow>
             (case we of
                None \<Rightarrow> s1\<lparr>stdin := stdin s @
                   [(p, \<lparr>req_id = request_id (messageId s + 1), req_command = ''analyze'',
                         req_file_path = fp\<rparr>)]\<rparr>
              | Some e \<Rightarrow> s\<lparr>messageId := messageId s + 1,
                   settled := settled s @ [(messageId s + 1, Inl (WriteError e))]\<rparr>))"
proof -
  have k: "request_id (Suc (messageId s)) \<notin> fst ` set (pendingRequests s)"
    using inv_fresh_key [OF inv, of "Suc (messageId s)"] by simp
  have t: "Suc (messageId s) \<notin> fst ` set (timeouts s)"
    using inv_fresh_timer [OF inv, of "Suc (messageId s)"] by simp
  have d1: "AList.delete (request_id (Suc (messageId s)))
              (pendingRequests s @ [(request_id (Suc (messageId s)), Suc (messageId s))])
            = pendingRequests s"
    using k by (simp add: AList.delete_eq) (force simp: filter_id_conv)
  have d2: "AList.delete (Suc (messageId s)) (timeouts s @ [(Suc (messageId s), tt)]) = timeouts s" for tt
    using t by (simp add: AList.delete_eq) (force simp: filter_id_conv)
  note u = update_fresh [OF k]
  show ?thesis
    by (simp add: send_def Let_def u d1 d2 split: option.splits)
qed

lemma inv_send: "manager_inv s \<Longrightarrow> manager_inv (send fp ms we s)"
proof -
  assume inv: "manager_inv s"
  have a: "manager_inv (s1\<lparr>stdin := x\<rparr>) = manager_inv s1" for s1 x
    by (rule inv_fields) simp_all
  show ?thesis
    using inv_register [OF inv, of fp ms] inv_write_failed [OF inv]
    by (simp add: send_cases [OF inv] Let_def a split: option.splits)
qed

lemma inv_analyzeFile: "manager_inv s \<Longrightarrow> manager_inv (PythonProcessManager_analyzeFile fp ms we s)"
proof -
  assume inv: "manager_inv s"
  have a: "manager_inv (s\<lparr>awaiting := x\<rparr>) = manager_inv s" for x
    by (rule inv_fields) simp_all
  show ?thesis
    using inv inv_send [OF inv]
    by (simp add: PythonProcessManager_analyzeFile_def a)
qed

lemma inv_foldl_send:
  "manager_inv s \<Longrightarrow>
   manager_inv (foldl (\<lambda>acc (filePath, timeoutMs, write_error). send filePath timeoutMs write_error acc) s ws)"
  by (induction ws arbitrary: s) (auto simp: inv_send split: prod.splits)

lemma inv_resume_awaiting: "manager_inv s \<Longrightarrow> manager_inv (resume_awaiting s)"
proof -
  assume inv: "manager_inv s"
  have a: "manager_inv (s\<lparr>awaiting := []\<rparr>)"
    using inv inv_fields [of "s\<lparr>awaiting := []\<rparr>" s] by simp
  show ?thesis
    using inv inv_foldl_send [OF a] by (simp add: resume_awaiting_def)
qed

lemma inv_processLine: "manager_inv s \<Longrightarrow> manager_inv (processLine l s)"
proof (cases l)
  case (Parsed r)
  assume inv: "manager_inv s"
  have a: "manager_inv (s\<lparr>isReady := True, readyPromise := True\<rparr>) = manager_inv s"
    by (rule inv_fields) simp_all
  from inv Parsed show ?thesis
    by (simp add: a inv_handleResponse)
qed simp_all

lemma inv_processOutput: "manager_inv s \<Longrightarrow> manager_inv (processOutput ls s)"
  unfolding processOutput_def
  by (induction ls arbitrary: s) (simp_all add: inv_processLine)

lemma foldl_clear_set:
  "set (foldl (\<lambda>acc (id, n). AList.delete n acc) ts ps) = {t \<in> set ts. fst t \<notin> snd ` set ps}"
  by (induction ps arbitrary: ts) (auto simp: set_delete)

lemma cleanup_timeouts:
  assumes inv: "manager_inv s"
  shows "timeouts (cleanup s) = []"
proof -
  have "set (timeouts (cleanup s)) = {}"
  proof -
    have "fst t \<in> snd ` set (pendingRequests s)" if "t \<in> set (timeouts s)" for t
    proof -
      from that have "(fst t, snd t) \<in> set (timeouts s)" by simp
      from inv_armed(3) [OF inv this] show ?thesis by force
    qed
    then show ?thesis by (auto simp: cleanup_def foldl_clear_set)
  qed
  then show ?thesis by simp
qed

lemma inv_pending_values:
  assumes inv: "manager_inv s"
  shows "distinct (map snd (pendingRequests s))"
proof -
  have "map fst (pendingRequests s) = map request_id (map snd (pendingRequests s))"
    using inv_entry(1) [OF inv] by (auto simp: map_eq_conv)
  with inv_distinct(1) [OF inv] show ?thesis
    by (simp add: distinct_map del: map_map)
qed

lemma inv_cleanup:
  assumes inv: "manager_inv s"
  shows "manager_inv (cleanup s)"
proof (rule invI)
  fix k m assume "(k, m) \<in> set (pendingRequests (cleanup s))"
  then show "k = request_id m \<and> m \<le> messageId (cleanup s) \<and>
      m \<in> fst ` set (timeouts (cleanup s))"
    by (simp add: cleanup_def)
next
  fix h t assume "(h, t) \<in> set (timeouts (cleanup s))"
  then show "t_id t = request_id h \<and> h \<le> messageId (cleanup s) \<and>
      (request_id h, h) \<in> set (pendingRequests (cleanup s))"
    by (simp add: cleanup_timeouts [OF inv])
next
  fix m r assume "(m, r) \<in> set (settled (cleanup s))"
  then have "(m, r) \<in> set (settled s) \<or> m \<in> snd ` set (pendingRequests s)"
    by (force simp: cleanup_def)
  then have "m \<le> messageId s"
    using inv_done(1) [OF inv, of m r] inv_entry(2) [OF inv] by auto
  then show "m \<le> messageId (cleanup s) \<and>
      request_id m \<notin> fst ` set (pendingRequests (cleanup s))"
    by (simp add: cleanup_def)
next
  have m: "map fst (map (\<lambda>(id, n). (n, Inl ProcessTerminated :: link_error + raw_info list))
             (pendingRequests s)) = map snd (pendingRequests s)"
    by (auto simp: map_eq_conv)
  have disj: "fst ` set (settled s) \<inter> snd ` set (pendingRequests s) = {}"
  proof (rule ccontr)
    assume "fst ` set (settled s) \<inter> snd ` set (pendingRequests s) \<noteq> {}"
    then obtain n r k where d: "(n, r) \<in> set (settled s)" and e: "(k, n) \<in> set (pendingRequests s)"
      by force
    from inv_entry(1) [OF inv e] inv_done(2) [OF inv d] e show False by force
  qed
  show "distinct (map fst (settled (cleanup s)))"
    using inv_distinct(3) [OF inv] inv_pending_values [OF inv] disj
    by (simp add: cleanup_def m del: map_map) 
next
  show "distinct (map fst (pendingRequests (cleanup s)))" by (simp add: cleanup_def)
next
  show "distinct (map fst (timeouts (cleanup s)))" by (simp add: cleanup_timeouts [OF inv])
qed

lemma inv_dispose: "manager_inv s \<Longrightarrow> manager_inv (dispose s)"
proof -
  assume inv: "manager_inv s"
  have a: "manager_inv (s\<lparr>killed := x, pythonProcess := y\<rparr>) = manager_inv s" for x y
    by (rule inv_fields) simp_all
  show ?thesis
    using inv by (cases "pythonProcess s") (simp_all add: dispose_def inv_cleanup a)
qed

lemma inv_step: "manager_inv s \<Longrightarrow> manager_inv (step e s)"
  by (cases e)
     (simp_all add: inv_start inv_analyzeFile inv_dispose inv_resume_awaiting inv_processOutput
        inv_cleanup inv_timeout_callback)

lemma inv_run: "manager_inv s \<Longrightarrow> manager_inv (run es s)"
  unfolding run_def by (induction es arbitrary: s) (simp_all add: inv_step)

lemma inv_reachable: "manager_inv (run es new_PythonProcessManager)"
  by (rule inv_run [OF inv_new])

lemma three_pending_run:
  "run three_pending new_PythonProcessManager =
    \<lparr>pythonProcess = Some 1, messageId = 3,
       pendingRequests = [(''req_1'', 1), (''req_2'', 2), (''req_3'', 3)],
       isReady = True, readyPromise = True, awaiting = [],
       timeouts = [(1, \<lparr>t_id = ''req_1'', t_filePath = ''/p/a.py'', t_ms = 10000\<rparr>),
                   (2, \<lparr>t_id = ''req_2'', t_filePath = ''/p/b.py'', t_ms = 10000\<rparr>),
                   (3, \<lparr>t_id = ''req_3'', t_filePath = ''/p/c.py'', t_ms = 10000\<rparr>)],
       stdin = [(1, \<lparr>req_id = ''req_1'', req_command = ''analyze'', req_file_path = ''/p/a.py''\<rparr>),
                (1, \<lparr>req_id = ''req_2'', req_command = ''analyze'', req_file_path = ''/p/b.py''\<rparr>),
                (1, \<lparr>req_id = ''req_3'', req_command = ''analyze'', req_file_path = ''/p/c.py''\<rparr>)],
       settled = [], spawned = 1, killed = []\<rparr>"
  by (simp add: three_pending_def run_def new_PythonProcessManager_def start_def ready_line_def
      processOutput_def resume_awaiting_def PythonProcessManager_analyzeFile_def send_def Let_def
      request_id_def decimal.simps digit_def)

lemma request_id_examples:
  "request_id 1 = ''req_1''" "request_id 2 = ''req_2''" "request_id 3 = ''req_3''"
  "request_id (Suc 0) = ''req_1''"
  by (simp_all add: request_id_def decimal.simps digit_def)

text \<open>
  C2.  In every state the manager can reach, the exit or the error of the process empties
  the pending table, resets \<open>isReady\<close>, clears the process reference, disarms every timer
  and rejects the promise of each request that was pending, in table order, with
  \<open>Python process terminated\<close>; none of these promises had been settled before, so each
  rejection takes effect.
\<close>

theorem process_exit_fails_every_pending_request:
  assumes "e = ProcessExit \<or> e = ProcessError"
  shows "pendingRequests (step e (run es new_PythonProcessManager)) = [] \<and>
         \<not> isReady (step e (run es new_PythonProcessManager)) \<and>
         pythonProcess (step e (run es new_PythonProcessManager)) = None \<and>
         timeouts (step e (run es new_PythonProcessManager)) = [] \<and>
         settled (step e (run es new_PythonProcessManager)) =
           settled (run es new_PythonProcessManager) @
           map (\<lambda>(id, n). (n, Inl ProcessTerminated))
             (pendingRequests (run es new_PythonProcessManager)) \<and>
         (\<forall>entry \<in> set (pendingRequests (run es new_PythonProcessManager)).
            snd entry \<notin> fst ` set (settled (run es new_PythonProcessManager)))"
proof -
  let ?s = "run es new_PythonProcessManager"
  have inv: "manager_inv ?s" by (rule inv_reachable)
  have st: "step e ?s = cleanup ?s" using assms by auto
  have unsettled: "snd entry \<notin> fst ` set (settled ?s)" if e: "entry \<in> set (pendingRequests ?s)" for entry
  proof
    assume "snd entry \<in> fst ` set (settled ?s)"
    then obtain r where d: "(snd entry, r) \<in> set (settled ?s)" by force
    from e have e': "(fst entry, snd entry) \<in> set (pendingRequests ?s)" by simp
    from inv_entry(1) [OF inv e'] inv_done(2) [OF inv d] e' show False by force
  qed
  show ?thesis
    unfolding st using cleanup_timeouts [OF inv] unsettled
    by (simp add: cleanup_def)
qed

theorem process_exit_fails_every_pending_request_witness:
  "(ProcessExit = ProcessExit \<or> ProcessExit = ProcessError) \<and>
   pendingRequests (run three_pending new_PythonProcessManager)
     = [(''req_1'', 1), (''req_2'', 2), (''req_3'', 3)] \<and>
   pendingRequests (step ProcessExit (run three_pending new_PythonProcessManager)) = [] \<and>
   settled (step ProcessExit (run three_pending new_PythonProcessManager))
     = [(1, Inl ProcessTerminated), (2, Inl ProcessTerminated), (3, Inl ProcessTerminated)]"
proof -
  have e: "ProcessExit = ProcessExit \<or> ProcessExit = ProcessError" by simp
  from process_exit_fails_every_pending_request [OF e, of three_pending]
  show ?thesis by (simp add: three_pending_run cleanup_def)
qed

text \<open>
  C1.  The first half of the claim holds: until a chunk of output contains a readiness
  line, nothing is written to the worker.
\<close>

lemma quiet_step: "quiet s \<Longrightarrow> \<not> has_ready e \<Longrightarrow> quiet (step e s)"
proof (cases e)
  case (StdoutData ls)
  assume q: "quiet s" and nr: "\<not> has_ready e"
  have pl: "processLine l s = s" if "l \<in> set ls" for l
  proof (cases l)
    case (Parsed r)
    with nr StdoutData that have "resp_type r \<noteq> Some ''ready''"
      by (auto simp: has_ready_def)
    with Parsed q show ?thesis
      by (simp add: quiet_def handleResponse_def split: option.splits)
  qed simp_all
  have "foldl (\<lambda>acc l. processLine l acc) s xs = s" if "set xs \<subseteq> set ls" for xs
    using that by (induction xs) (simp_all add: pl)
  then have "processOutput ls s = s"
    by (simp add: processOutput_def)
  with q show ?thesis using StdoutData by (simp add: resume_awaiting_def quiet_def)
qed (auto simp: quiet_def start_def PythonProcessManager_analyzeFile_def dispose_def cleanup_def
      timeout_callback_def split: option.splits)

lemma quiet_run:
  "quiet s \<Longrightarrow> \<forall>e \<in> set es. \<not> has_ready e \<Longrightarrow> quiet (run es s)"
  unfolding run_def by (induction es arbitrary: s) (simp_all add: quiet_step)

lemma nothing_sent_before_first_ready:
  assumes "\<forall>e \<in> set es. \<not> has_ready e"
  shows "stdin (run es new_PythonProcessManager) = []"
proof -
  have "quiet new_PythonProcessManager"
    by (simp add: quiet_def new_PythonProcessManager_def)
  from quiet_run [OF this assms] show ?thesis by (simp add: quiet_def)
qed

text \<open>
  C1, the second half, fails.  \<open>cleanup\<close> resets \<open>isReady\<close>, but the readiness promise is
  the one created in the constructor and stays resolved, so after a crash and a restart
  \<open>await this.readyPromise\<close> returns at once: the request is written to the second process
  while \<open>isReady\<close> is false and before that process has printed a readiness line.
\<close>

theorem restart_sends_before_new_ready:
  "stdin (run crash_restart new_PythonProcessManager) =
     [(2, \<lparr>req_id = ''req_1'', req_command = ''analyze'', req_file_path = ''/p/a.py''\<rparr>)] \<and>
   pythonProcess (run crash_restart new_PythonProcessManager) = Some 2 \<and>
   \<not> isReady (run crash_restart new_PythonProcessManager) \<and>
   \<not> has_ready (Start False) \<and> \<not> has_ready (AnalyzeFile ''/p/a.py'' 10000 None)"
  by (simp add: crash_restart_def run_def new_PythonProcessManager_def start_def ready_line_def processOutput_def
     resume_awaiting_def cleanup_def dispose_def PythonProcessManager_analyzeFile_def send_def Let_def request_id_def decimal.simps digit_def has_ready_def)

lemma grows_refl: "grows s s"
  by (simp add: grows_def)

lemma grows_trans: "grows s s' \<Longrightarrow> grows s' s'' \<Longrightarrow> grows s s''"
  unfolding grows_def by (meson le_trans less_le_trans le_less_trans)

lemma grows_same:
  "messageId s' = messageId s \<Longrightarrow> fst ` set (pendingRequests s') \<subseteq> fst ` set (pendingRequests s)
   \<Longrightarrow> grows s s'"
  unfolding grows_def by auto

lemma grows_send: "manager_inv s \<Longrightarrow> grows s (send fp ms we s)"
  by (auto simp: send_cases grows_def Let_def split: option.splits)

lemma grows_foldl_send:
  "manager_inv s \<Longrightarrow>
   grows s (foldl (\<lambda>acc (filePath, timeoutMs, write_error). send filePath timeoutMs write_error acc) s ws)"
proof (induction ws arbitrary: s)
  case Nil
  show ?case by (simp add: grows_refl)
next
  case (Cons w ws)
  obtain fp ms we where w: "w = (fp, ms, we)" by (cases w) auto
  from Cons.IH [OF inv_send [OF Cons.prems, of fp ms we]] grows_send [OF Cons.prems, of fp ms we]
  show ?case by (simp add: w) (rule grows_trans)
qed

lemma grows_handleResponse: "grows s (handleResponse r s)"
  by (rule grows_same) (auto simp: handleResponse_def set_delete split: option.splits)

lemma grows_processLine: "grows s (processLine l s)"
proof (cases l)
  case (Parsed r)
  have "grows s (s\<lparr>isReady := True, readyPromise := True\<rparr>)"
    by (rule grows_same) simp_all
  with Parsed grows_handleResponse [of s r] show ?thesis by simp
qed (simp_all add: grows_refl)

lemma grows_processOutput: "grows s (processOutput ls s)"
  unfolding processOutput_def
proof (induction ls arbitrary: s)
  case Nil
  show ?case by (simp add: grows_refl)
next
  case (Cons l ls)
  from grows_trans [OF grows_processLine Cons.IH] show ?case by simp
qed

lemma grows_step: "manager_inv s \<Longrightarrow> grows s (step e s)"
proof (cases e)
  case (Start b)
  then show ?thesis by (auto intro!: grows_same simp: start_def split: option.splits)
next
  case (AnalyzeFile fp ms we)
  assume "manager_inv s"
  from grows_send [OF this] have g: "grows s (send fp ms we s)" .
  have "grows s (s\<lparr>awaiting := awaiting s @ [(fp, ms, we)]\<rparr>)"
    by (rule grows_same) simp_all
  with g AnalyzeFile show ?thesis
    by (simp add: PythonProcessManager_analyzeFile_def)
next
  case Dispose
  then show ?thesis
    by (auto intro!: grows_same simp: dispose_def cleanup_def split: option.splits)
next
  case (StdoutData ls)
  assume inv: "manager_inv s"
  let ?s1 = "processOutput ls s"
  have inv1: "manager_inv ?s1" by (rule inv_processOutput [OF inv])
  have inv2: "manager_inv (?s1\<lparr>awaiting := []\<rparr>)"
    using inv1 inv_fields [of "?s1\<lparr>awaiting := []\<rparr>" ?s1] by simp
  have g2: "grows ?s1 (?s1\<lparr>awaiting := []\<rparr>)" by (rule grows_same) simp_all
  have "grows ?s1 (resume_awaiting ?s1)"
    using grows_trans [OF g2 grows_foldl_send [OF inv2]]
    by (simp add: resume_awaiting_def grows_refl)
  from grows_trans [OF grows_processOutput this] StdoutData show ?thesis by simp
next
  case ProcessError
  then show ?thesis by (auto intro!: grows_same simp: cleanup_def)
next
  case ProcessExit
  then show ?thesis by (auto intro!: grows_same simp: cleanup_def)
next
  case (TimeoutFires n)
  then show ?thesis
    by (cases "map_of (timeouts s) n")
       (auto intro!: grows_same simp: timeout_callback_def set_delete)
qed

lemma grows_run: "manager_inv s \<Longrightarrow> grows s (run es s)"
  unfolding run_def
proof (induction es arbitrary: s)
  case Nil
  show ?case by (simp add: grows_refl)
next
  case (Cons e es)
  from grows_trans [OF grows_step [OF Cons.prems] Cons.IH [OF inv_step [OF Cons.prems]]]
  show ?case by simp
qed

lemma retired_stays:
  assumes "grows s s'" "n \<le> messageId s" "request_id n \<notin> fst ` set (pendingRequests s)"
  shows "request_id n \<notin> fst ` set (pendingRequests s')"
proof
  assume "request_id n \<in> fst ` set (pendingRequests s')"
  with assms(1) have "request_id n \<in> fst ` set (pendingRequests s) \<or>
      (\<exists>m. messageId s < m \<and> request_id n = request_id m)"
    unfolding grows_def by blast
  with assms(2,3) show False by auto
qed

lemma handleResponse_unmatched:
  "resp_id r = Some k \<Longrightarrow> k \<notin> fst ` set (pendingRequests s) \<Longrightarrow> handleResponse r s = s"
  by (simp add: handleResponse_def map_of_eq_None_iff [THEN iffD2])

text \<open>
  C6.  In every state the manager can reach, an armed timeout timer \<open>n\<close> belongs to the
  pending request \<open>req_n\<close>, whose promise is not settled (no response for it has been
  handled).  When the timer fires, the entry is removed from the pending table and the
  promise is rejected with the timeout error for the request's file.  From then on,
  whatever events follow, a response that carries the id \<open>req_n\<close> leaves the manager's
  state as it is: it matches no entry, settles nothing and clears no timer.
\<close>

theorem timeout_removes_entry_and_late_response_is_ignored:
  assumes armed: "map_of (timeouts (run es new_PythonProcessManager)) n = Some t"
  shows "map_of (pendingRequests (run es new_PythonProcessManager)) (request_id n) = Some n \<and>
         t_id t = request_id n \<and>
         n \<notin> fst ` set (settled (run es new_PythonProcessManager)) \<and>
         step (TimeoutFires n) (run es new_PythonProcessManager) =
           (run es new_PythonProcessManager)
             \<lparr>timeouts := AList.delete n (timeouts (run es new_PythonProcessManager)),
              pendingRequests :=
                AList.delete (request_id n) (pendingRequests (run es new_PythonProcessManager)),
              settled := settled (run es new_PythonProcessManager) @
                [(n, Inl (AnalysisTimeout (t_filePath t)))]\<rparr> \<and>
         map_of (pendingRequests (step (TimeoutFires n) (run es new_PythonProcessManager)))
           (request_id n) = None \<and>
         (\<forall>later r. resp_id r = Some (request_id n) \<longrightarrow>
            handleResponse r (run later (step (TimeoutFires n) (run es new_PythonProcessManager)))
              = run later (step (TimeoutFires n) (run es new_PythonProcessManager)))"
proof -
  let ?s = "run es new_PythonProcessManager"
  let ?s' = "step (TimeoutFires n) ?s"
  have inv: "manager_inv ?s" by (rule inv_reachable)
  have inv': "manager_inv ?s'" by (rule inv_step [OF inv])
  note t = inv_timer [OF inv armed]
  have p: "map_of (pendingRequests ?s) (request_id n) = Some n"
    using t(3) inv_distinct(1) [OF inv] by simp
  have unsettled: "n \<notin> fst ` set (settled ?s)"
  proof
    assume "n \<in> fst ` set (settled ?s)"
    then obtain r where "(n, r) \<in> set (settled ?s)" by force
    from inv_done(2) [OF inv this] t(3) show False by force
  qed
  have st: "?s' = ?s\<lparr>timeouts := AList.delete n (timeouts ?s),
              pendingRequests := AList.delete (request_id n) (pendingRequests ?s),
              settled := settled ?s @ [(n, Inl (AnalysisTimeout (t_filePath t)))]\<rparr>"
    using armed t(1) by (simp add: timeout_callback_def)
  have gone: "request_id n \<notin> fst ` set (pendingRequests ?s')"
    by (subst st) (simp add: keys_delete)
  have le: "n \<le> messageId ?s'"
    using t(2) by (subst st) simp
  have late: "handleResponse r (run later ?s') = run later ?s'"
    if "resp_id r = Some (request_id n)" for later r
    using handleResponse_unmatched [OF that retired_stays [OF grows_run [OF inv'] le gone]] .
  from p t(1) unsettled st gone late show ?thesis
    by (simp add: map_of_eq_None_iff)
qed

theorem timeout_removes_entry_and_late_response_is_ignored_witness:
  "map_of (timeouts (run three_pending new_PythonProcessManager)) 1
     = Some \<lparr>t_id = ''req_1'', t_filePath = ''/p/a.py'', t_ms = 10000\<rparr> \<and>
   pendingRequests (step (TimeoutFires 1) (run three_pending new_PythonProcessManager))
     = [(''req_2'', 2), (''req_3'', 3)] \<and>
   settled (step (TimeoutFires 1) (run three_pending new_PythonProcessManager))
     = [(1, Inl (AnalysisTimeout ''/p/a.py''))] \<and>
   resp_id late_response = Some (request_id 1) \<and>
   handleResponse late_response
     (run [AnalyzeFile ''/p/d.py'' 10000 None]
        (step (TimeoutFires 1) (run three_pending new_PythonProcessManager)))
     = run [AnalyzeFile ''/p/d.py'' 10000 None]
        (step (TimeoutFires 1) (run three_pending new_PythonProcessManager))"
proof -
  let ?t = "\<lparr>t_id = ''req_1'', t_filePath = ''/p/a.py'', t_ms = 10000\<rparr>"
  have armed: "map_of (timeouts (run three_pending new_PythonProcessManager)) 1 = Some ?t"
    by (simp add: three_pending_run)
  have rid: "resp_id late_response = Some (request_id 1)"
    by (simp add: late_response_def request_id_examples)
  note T = timeout_removes_entry_and_late_response_is_ignored [OF armed]
  from T have st: "step (TimeoutFires 1) (run three_pending new_PythonProcessManager) =
      (run three_pending new_PythonProcessManager)
        \<lparr>timeouts := AList.delete 1 (timeouts (run three_pending new_PythonProcessManager)),
         pendingRequests := AList.delete (request_id 1)
            (pendingRequests (run three_pending new_PythonProcessManager)),
         settled := settled (run three_pending new_PythonProcessManager) @
            [(1, Inl (AnalysisTimeout (t_filePath ?t)))]\<rparr>"
    by (elim conjE)
  from T have late: "\<forall>later r. resp_id r = Some (request_id 1) \<longrightarrow>
      handleResponse r (run later (step (TimeoutFires 1) (run three_pending new_PythonProcessManager)))
        = run later (step (TimeoutFires 1) (run three_pending new_PythonProcessManager))"
    by (elim conjE)
  from late rid have l: "handleResponse late_response
     (run [AnalyzeFile ''/p/d.py'' 10000 None]
        (step (TimeoutFires 1) (run three_pending new_PythonProcessManager)))
     = run [AnalyzeFile ''/p/d.py'' 10000 None]
        (step (TimeoutFires 1) (run three_pending new_PythonProcessManager))"
    by blast
  have p: "pendingRequests (step (TimeoutFires 1) (run three_pending new_PythonProcessManager))
     = [(''req_2'', 2), (''req_3'', 3)]"
    by (subst st) (simp add: three_pending_run request_id_examples)
  have d: "settled (step (TimeoutFires 1) (run three_pending new_PythonProcessManager))
     = [(1, Inl (AnalysisTimeout ''/p/a.py''))]"
    by (subst st) (simp add: three_pending_run)
  from armed p d rid l show ?thesis by blast
qed

lemma handleResponse_matched:
  "resp_id r = Some k \<Longrightarrow> map_of (pendingRequests s) k = Some n \<Longrightarrow>
   handleResponse r s =
     s\<lparr>timeouts := AList.delete n (timeouts s),
       pendingRequests := AList.delete k (pendingRequests s),
       settled := settled s @ [(n, response_outcome r)]\<rparr>"
  by (simp add: handleResponse_def)

lemma handleResponse_no_id: "resp_id r = None \<Longrightarrow> handleResponse r s = s"
  by (simp add: handleResponse_def)

lemma handleResponse_no_entry:
  "resp_id r = Some k \<Longrightarrow> map_of (pendingRequests s) k = None \<Longrightarrow> handleResponse r s = s"
  by (simp add: handleResponse_def)

lemma handleResponse_swap:
  assumes "resp_id r1 \<noteq> resp_id r2"
  shows "pendingRequests (handleResponse r1 (handleResponse r2 s))
           = pendingRequests (handleResponse r2 (handleResponse r1 s)) \<and>
         timeouts (handleResponse r1 (handleResponse r2 s))
           = timeouts (handleResponse r2 (handleResponse r1 s)) \<and>
         set (settled (handleResponse r1 (handleResponse r2 s)))
           = set (settled (handleResponse r2 (handleResponse r1 s)))"
proof (cases "resp_id r1")
  case None
  then show ?thesis by (simp add: handleResponse_no_id)
next
  case k1: (Some k1)
  show ?thesis
  proof (cases "resp_id r2")
    case None
    then show ?thesis by (simp add: handleResponse_no_id)
  next
    case k2: (Some k2)
    from assms k1 k2 have ne: "k1 \<noteq> k2" by simp
    show ?thesis
    proof (cases "map_of (pendingRequests s) k1")
      case None
      have "map_of (pendingRequests (handleResponse r2 s)) k1 = None"
        using None ne k2
        by (cases "map_of (pendingRequests s) k2")
           (simp_all add: handleResponse_def AList.delete_conv')
      with None k1 show ?thesis by (simp add: handleResponse_no_entry)
    next
      case n1: (Some n1)
      show ?thesis
      proof (cases "map_of (pendingRequests s) k2")
        case None
        have "map_of (pendingRequests (handleResponse r1 s)) k2 = None"
          using None ne k1 n1 by (simp add: handleResponse_def AList.delete_conv')
        with None k2 show ?thesis by (simp add: handleResponse_no_entry)
      next
        case n2: (Some n2)
        have a: "map_of (pendingRequests (handleResponse r2 s)) k1 = Some n1"
          using n1 n2 ne k2 by (simp add: handleResponse_def AList.delete_conv')
        have b: "map_of (pendingRequests (handleResponse r1 s)) k2 = Some n2"
          using n1 n2 ne k1 by (simp add: handleResponse_def AList.delete_conv')
        have e2: "handleResponse r2 s = s\<lparr>timeouts := AList.delete n2 (timeouts s),
             pendingRequests := AList.delete k2 (pendingRequests s),
             settled := settled s @ [(n2, response_outcome r2)]\<rparr>"
          by (rule handleResponse_matched [OF k2 n2])
        have e1: "handleResponse r1 s = s\<lparr>timeouts := AList.delete n1 (timeouts s),
             pendingRequests := AList.delete k1 (pendingRequests s),
             settled := settled s @ [(n1, response_outcome r1)]\<rparr>"
          by (rule handleResponse_matched [OF k1 n1])
        have e12: "handleResponse r1 (handleResponse r2 s) =
            s\<lparr>timeouts := AList.delete n1 (AList.delete n2 (timeouts s)),
             pendingRequests := AList.delete k1 (AList.delete k2 (pendingRequests s)),
             settled := settled s @ [(n2, response_outcome r2), (n1, response_outcome r1)]\<rparr>"
          by (subst handleResponse_matched [OF k1 a]) (simp add: e2)
        have e21: "handleResponse r2 (handleResponse r1 s) =
            s\<lparr>timeouts := AList.delete n2 (AList.delete n1 (timeouts s)),
             pendingRequests := AList.delete k2 (AList.delete k1 (pendingRequests s)),
             settled := settled s @ [(n1, response_outcome r1), (n2, response_outcome r2)]\<rparr>"
          by (subst handleResponse_matched [OF k2 b]) (simp add: e1)
        show ?thesis
          unfolding e12 e21
          by (simp add: AList.delete_twist [of k1 k2] AList.delete_twist [of n1 n2]
              insert_commute)
      qed
    qed
  qed
qed

text \<open>
  C7.  In every state the manager can reach, a response whose id is the key of a pending
  entry settles the promise stored under that key, which is the promise of the request
  that was sent with this id, with the response's own outcome; it clears that request's
  timer and removes that entry, and the entry under every other key is unchanged.  A
  response without a string id, or with an id that is not a key of the table, leaves the
  state as it is.  Two responses with different ids can be handled in either order: the
  pending table, the armed timers and the settlements are the same.
\<close>

theorem response_matched_by_id_only:
  "(resp_id r = Some k \<and> map_of (pendingRequests (run es new_PythonProcessManager)) k = Some n
      \<longrightarrow>
      k = request_id n \<and>
      handleResponse r (run es new_PythonProcessManager) =
        (run es new_PythonProcessManager)
          \<lparr>timeouts := AList.delete n (timeouts (run es new_PythonProcessManager)),
           pendingRequests := AList.delete k (pendingRequests (run es new_PythonProcessManager)),
           settled := settled (run es new_PythonProcessManager) @ [(n, response_outcome r)]\<rparr> \<and>
      (\<forall>k'. k' \<noteq> k \<longrightarrow>
         map_of (pendingRequests (handleResponse r (run es new_PythonProcessManager))) k'
           = map_of (pendingRequests (run es new_PythonProcessManager)) k')) \<and>
   (resp_id r = None \<or>
    (\<exists>k. resp_id r = Some k \<and> map_of (pendingRequests (run es new_PythonProcessManager)) k = None)
      \<longrightarrow> handleResponse r (run es new_PythonProcessManager) = run es new_PythonProcessManager) \<and>
   (resp_id r1 \<noteq> resp_id r2 \<longrightarrow>
      pendingRequests (handleResponse r1 (handleResponse r2 (run es new_PythonProcessManager)))
        = pendingRequests (handleResponse r2 (handleResponse r1 (run es new_PythonProcessManager))) \<and>
      timeouts (handleResponse r1 (handleResponse r2 (run es new_PythonProcessManager)))
        = timeouts (handleResponse r2 (handleResponse r1 (run es new_PythonProcessManager))) \<and>
      set (settled (handleResponse r1 (handleResponse r2 (run es new_PythonProcessManager))))
        = set (settled (handleResponse r2 (handleResponse r1 (run es new_PythonProcessManager)))))"
proof (intro conjI impI)
  let ?s = "run es new_PythonProcessManager"
  assume a: "resp_id r = Some k \<and> map_of (pendingRequests ?s) k = Some n"
  have inv: "manager_inv ?s" by (rule inv_reachable)
  from a inv_pending(1) [OF inv] show "k = request_id n" by blast
  from a show "handleResponse r ?s =
        ?s\<lparr>timeouts := AList.delete n (timeouts ?s),
           pendingRequests := AList.delete k (pendingRequests ?s),
           settled := settled ?s @ [(n, response_outcome r)]\<rparr>"
    by (simp add: handleResponse_matched)
  from a show "\<forall>k'. k' \<noteq> k \<longrightarrow>
         map_of (pendingRequests (handleResponse r ?s)) k' = map_of (pendingRequests ?s) k'"
    by (simp add: handleResponse_def AList.delete_conv')
next
  assume "resp_id r = None \<or>
    (\<exists>k. resp_id r = Some k \<and> map_of (pendingRequests (run es new_PythonProcessManager)) k = None)"
  then show "handleResponse r (run es new_PythonProcessManager) = run es new_PythonProcessManager"
    by (auto simp: handleResponse_no_id handleResponse_no_entry)
next
  assume ne: "resp_id r1 \<noteq> resp_id r2"
  from handleResponse_swap [OF ne, of "run es new_PythonProcessManager"]
  show "pendingRequests (handleResponse r1 (handleResponse r2 (run es new_PythonProcessManager)))
        = pendingRequests (handleResponse r2 (handleResponse r1 (run es new_PythonProcessManager)))"
    "timeouts (handleResponse r1 (handleResponse r2 (run es new_PythonProcessManager)))
        = timeouts (handleResponse r2 (handleResponse r1 (run es new_PythonProcessManager)))"
    "set (settled (handleResponse r1 (handleResponse r2 (run es new_PythonProcessManager))))
        = set (settled (handleResponse r2 (handleResponse r1 (run es new_PythonProcessManager))))"
    by simp_all
qed

theorem response_matched_by_id_only_witness:
  "resp_id second_response = Some ''req_2'' \<and>
   map_of (pendingRequests (run three_pending new_PythonProcessManager)) ''req_2'' = Some 2 \<and>
   pendingRequests (handleResponse second_response (run three_pending new_PythonProcessManager))
     = [(''req_1'', 1), (''req_3'', 3)] \<and>
   settled (handleResponse second_response (run three_pending new_PythonProcessManager))
     = [(2, Inr [relation_example])] \<and>
   resp_id unknown_response = Some ''req_9'' \<and>
   map_of (pendingRequests (run three_pending new_PythonProcessManager)) ''req_9'' = None \<and>
   handleResponse unknown_response (run three_pending new_PythonProcessManager)
     = run three_pending new_PythonProcessManager \<and>
   resp_id third_response \<noteq> resp_id second_response \<and>
   pendingRequests (handleResponse third_response
       (handleResponse second_response (run three_pending new_PythonProcessManager)))
     = pendingRequests (handleResponse second_response
       (handleResponse third_response (run three_pending new_PythonProcessManager)))"
proof -
  let ?s = "run three_pending new_PythonProcessManager"
  have a: "resp_id second_response = Some ''req_2'' \<and>
           map_of (pendingRequests ?s) ''req_2'' = Some 2"
    by (simp add: second_response_def three_pending_run)
  have b: "resp_id unknown_response = Some ''req_9'' \<and>
           map_of (pendingRequests ?s) ''req_9'' = None"
    by (simp add: unknown_response_def three_pending_run)
  have c: "resp_id third_response \<noteq> resp_id second_response"
    by (simp add: third_response_def second_response_def)
  note T1 = response_matched_by_id_only
    [where r = second_response and k = "''req_2''" and n = 2 and es = three_pending
       and ?r1.0 = third_response and ?r2.0 = second_response]
  note T2 = response_matched_by_id_only
    [where r = unknown_response and k = "''req_9''" and n = 0 and es = three_pending
       and ?r1.0 = third_response and ?r2.0 = second_response]
  from T1 a have m: "handleResponse second_response ?s =
        ?s\<lparr>timeouts := AList.delete 2 (timeouts ?s),
           pendingRequests := AList.delete ''req_2'' (pendingRequests ?s),
           settled := settled ?s @ [(2, response_outcome second_response)]\<rparr>"
    by blast
  have p: "pendingRequests (handleResponse second_response ?s) = [(''req_1'', 1), (''req_3'', 3)]"
    by (subst m) (simp add: three_pending_run)
  have d: "settled (handleResponse second_response ?s) = [(2, Inr [relation_example])]"
    by (subst m)
       (simp add: three_pending_run response_outcome_def second_response_def truthy_def)
  from T2 b have u: "handleResponse unknown_response ?s = ?s"
    by blast
  from T1 c have w: "pendingRequests (handleResponse third_response
       (handleResponse second_response ?s))
     = pendingRequests (handleResponse second_response (handleResponse third_response ?s))"
    by blast
  from a p d b u c w show ?thesis by blast
qed

section \<open>Properties of the document managers\<close>

lemma dm_inv_new: "dm_inv new_DocumentManager"
  by (simp add: dm_inv_def new_DocumentManager_def)

lemma armed_registered:
  assumes "dm_inv s" "t \<in> set (armed s)"
  shows "map_of (analysisQueue s) (q_filePath (snd t)) = Some (fst t)" "fst t < next_handle s"
proof -
  from assms have "(q_filePath (snd t), fst t) \<in> set (analysisQueue s) \<and> fst t < next_handle s"
    and "distinct (map fst (analysisQueue s))"
    unfolding dm_inv_def by blast+
  then show "map_of (analysisQueue s) (q_filePath (snd t)) = Some (fst t)"
    "fst t < next_handle s" by simp_all
qed

lemma dm_inv_distinct:
  assumes "dm_inv s"
  shows "distinct (map fst (analysisQueue s))" "distinct (map fst (armed s))"
  using assms unfolding dm_inv_def by blast+

lemma scheduleAnalysis_eq:
  "scheduleAnalysis f d s =
     s\<lparr>armed := cancel f s @ [(next_handle s, \<lparr>q_filePath = f, q_delay = d\<rparr>)],
       next_handle := next_handle s + 1,
       analysisQueue := AList.update f (next_handle s) (analysisQueue s)\<rparr>"
  by (simp add: scheduleAnalysis_def cancel_def Let_def split: option.splits)

lemma cancel_subset: "set (cancel f s) \<subseteq> set (armed s)"
  by (auto simp: cancel_def set_delete split: option.splits)

lemma cancel_none_for_file:
  assumes "dm_inv s" "t \<in> set (cancel f s)"
  shows "q_filePath (snd t) \<noteq> f"
proof
  assume f: "q_filePath (snd t) = f"
  from assms(2) cancel_subset have t: "t \<in> set (armed s)" by blast
  from armed_registered(1) [OF assms(1) t] f
  have "map_of (analysisQueue s) f = Some (fst t)" by simp
  with assms(2) show False by (simp add: cancel_def set_delete)
qed

lemma registered_armed:
  assumes "dm_inv s" "(f, h) \<in> set (analysisQueue s)"
  shows "\<exists>t \<in> set (armed s). fst t = h \<and> q_filePath (snd t) = f"
proof -
  from assms have "(snd (f, h), fst (f, h)) \<in> set (map (\<lambda>t. (fst t, q_filePath (snd t))) (armed s))"
    unfolding dm_inv_def by blast
  then show ?thesis by auto
qed

lemma armed_unique:
  assumes "dm_inv s" "t \<in> set (armed s)" "t' \<in> set (armed s)" "fst t = fst t'"
  shows "t = t'"
  using dm_inv_distinct(2) [OF assms(1)] assms(2-4)
  by (metis eq_key_imp_eq_value prod.collapse)

lemma cancel_keeps_others:
  assumes "dm_inv s" "g \<noteq> f"
  shows "filter (\<lambda>t. q_filePath (snd t) = g) (cancel f s)
           = filter (\<lambda>t. q_filePath (snd t) = g) (armed s)"
proof (cases "map_of (analysisQueue s) f")
  case None
  then show ?thesis by (simp add: cancel_def)
next
  case (Some h)
  then have fh: "(f, h) \<in> set (analysisQueue s)" by (auto dest: map_of_SomeD)
  from registered_armed [OF assms(1) fh] obtain t0 where
    t0: "t0 \<in> set (armed s)" "fst t0 = h" "q_filePath (snd t0) = f" by blast
  have ne: "fst t \<noteq> h" if t: "t \<in> set (armed s)" and g: "q_filePath (snd t) = g" for t
  proof
    assume "fst t = h"
    with armed_unique [OF assms(1) t t0(1)] t0(2) have "t = t0" by simp
    with g t0(3) assms(2) show False by simp
  qed
  have "filter (\<lambda>t. q_filePath (snd t) = g) (filter (\<lambda>t. fst t \<noteq> h) (armed s))
        = filter (\<lambda>t. q_filePath (snd t) = g) (armed s)"
    using ne by (auto intro!: filter_cong)
  moreover have "AList.delete h (armed s) = filter (\<lambda>t. fst t \<noteq> h) (armed s)"
    by (auto simp: AList.delete_eq intro!: filter_cong)
  ultimately show ?thesis
    using Some by (simp add: cancel_def)
qed

lemma schedule_timers_for:
  assumes inv: "dm_inv s"
  shows "timers_for f (scheduleAnalysis f d s) = [next_handle s]"
    and "g \<noteq> f \<Longrightarrow> timers_for g (scheduleAnalysis f d s) = timers_for g s"
proof -
  have "filter (\<lambda>t. q_filePath (snd t) = f) (cancel f s) = []"
    using cancel_none_for_file [OF inv] by (auto simp: filter_empty_conv)
  then show "timers_for f (scheduleAnalysis f d s) = [next_handle s]"
    by (simp add: timers_for_def scheduleAnalysis_eq)
  show "timers_for g (scheduleAnalysis f d s) = timers_for g s" if "g \<noteq> f"
    using cancel_keeps_others [OF inv that] that
    by (simp add: timers_for_def scheduleAnalysis_eq)
qed

lemma schedule_fields:
  "map_of (analysisQueue (scheduleAnalysis f d s)) f = Some (next_handle s)"
  "calls (scheduleAnalysis f d s) = calls s"
  "next_handle (scheduleAnalysis f d s) = next_handle s + 1"
  by (simp_all add: scheduleAnalysis_eq AList.update_conv')

lemma dm_invI:
  assumes "\<And>h t. (h, t) \<in> set (armed s) \<Longrightarrow>
             (q_filePath t, h) \<in> set (analysisQueue s) \<and> h < next_handle s"
    and "\<And>f h. (f, h) \<in> set (analysisQueue s) \<Longrightarrow>
             \<exists>t. (h, t) \<in> set (armed s) \<and> q_filePath t = f"
    and "distinct (map fst (analysisQueue s))"
    and "distinct (map fst (armed s))"
  shows "dm_inv s"
  unfolding dm_inv_def
proof (intro conjI ballI)
  fix t assume "t \<in> set (armed s)"
  then have "(fst t, snd t) \<in> set (armed s)" by simp
  from assms(1) [OF this]
  show "(q_filePath (snd t), fst t) \<in> set (analysisQueue s)" "fst t < next_handle s"
    by blast+
next
  fix e assume "e \<in> set (analysisQueue s)"
  then have "(fst e, snd e) \<in> set (analysisQueue s)" by simp
  from assms(2) [OF this] obtain t where "(snd e, t) \<in> set (armed s)" "q_filePath t = fst e"
    by blast
  then show "(snd e, fst e) \<in> set (map (\<lambda>t. (fst t, q_filePath (snd t))) (armed s))"
    by force
qed (use assms(3,4) in blast)+

lemma dm_inv_schedule:
  assumes inv: "dm_inv s"
  shows "dm_inv (scheduleAnalysis f d s)" (is "dm_inv ?s'")
proof (rule dm_invI)
  fix h t assume "(h, t) \<in> set (armed ?s')"
  then have c: "(h, t) \<in> set (cancel f s) \<or> h = next_handle s \<and> q_filePath t = f"
    by (auto simp: scheduleAnalysis_eq)
  show "(q_filePath t, h) \<in> set (analysisQueue ?s') \<and> h < next_handle ?s'"
  proof (rule disjE [OF c])
    assume a: "(h, t) \<in> set (cancel f s)"
    from cancel_none_for_file [OF inv a] have nf: "q_filePath t \<noteq> f" by simp
    from a cancel_subset have "(h, t) \<in> set (armed s)" by blast
    from armed_registered [OF inv this]
    have "map_of (analysisQueue s) (q_filePath t) = Some h" "h < next_handle s" by simp_all
    with nf have "map_of (analysisQueue ?s') (q_filePath t) = Some h"
      by (simp add: scheduleAnalysis_eq AList.update_conv')
    with \<open>h < next_handle s\<close> show ?thesis
      by (auto dest: map_of_SomeD simp: schedule_fields)
  next
    assume a: "h = next_handle s \<and> q_filePath t = f"
    from map_of_SomeD [OF schedule_fields(1) [of f d s]]
    have "(f, next_handle s) \<in> set (analysisQueue ?s')" .
    with a show ?thesis by (simp add: schedule_fields)
  qed
next
  have dq: "distinct (map fst (analysisQueue ?s'))"
    using dm_inv_distinct(1) [OF inv] by (simp add: scheduleAnalysis_eq AList.distinct_update)
  show "distinct (map fst (analysisQueue ?s'))" by (rule dq)
  fix g h assume e: "(g, h) \<in> set (analysisQueue ?s')"
  with dq have m: "map_of (analysisQueue ?s') g = Some h" by simp
  show "\<exists>t. (h, t) \<in> set (armed ?s') \<and> q_filePath t = g"
  proof (cases "g = f")
    case True
    with m schedule_fields(1) [of f d s] have "h = next_handle s" by simp
    with True show ?thesis by (auto simp: scheduleAnalysis_eq)
  next
    case False
    with m have "map_of (analysisQueue s) g = Some h"
      by (simp add: scheduleAnalysis_eq AList.update_conv')
    then have "(g, h) \<in> set (analysisQueue s)" by (auto dest: map_of_SomeD)
    from registered_armed [OF inv this] obtain t where
      t: "t \<in> set (armed s)" "fst t = h" "q_filePath (snd t) = g" by blast
    then have "t \<in> set (filter (\<lambda>t. q_filePath (snd t) = g) (armed s))" by simp
    with cancel_keeps_others [OF inv False] have "t \<in> set (cancel f s)"
      by (metis filter_is_subset subsetD)
    with t have "(h, snd t) \<in> set (armed ?s')" by (auto simp: scheduleAnalysis_eq)
    with t(3) show ?thesis by blast
  qed
next
  have "next_handle s \<notin> fst ` set (cancel f s)"
  proof
    assume "next_handle s \<in> fst ` set (cancel f s)"
    then obtain t where "t \<in> set (cancel f s)" "fst t = next_handle s" by auto
    with cancel_subset have "t \<in> set (armed s)" by blast
    from armed_registered(2) [OF inv this] \<open>fst t = next_handle s\<close> show False by simp
  qed
  moreover have "distinct (map fst (cancel f s))"
    using dm_inv_distinct(2) [OF inv] by (simp add: cancel_def AList.distinct_delete split: option.splits)
  ultimately show "distinct (map fst (armed ?s'))"
    by (simp add: scheduleAnalysis_eq)
qed

lemma callback_eq:
  assumes "map_of (armed s) h = Some t"
  shows "queue_timer_callback a h s =
     s\<lparr>armed := AList.delete h (armed s),
       calls := calls s @ [PerformAnalysis (q_filePath t)] @
          (if a = Some (q_filePath t) then [UpdateDecorations (q_filePath t)] else []),
       analysisQueue := AList.delete (q_filePath t) (analysisQueue s)\<rparr>"
  using assms by (simp add: queue_timer_callback_def performAnalysis_def Let_def)

lemma callback_unarmed: "map_of (armed s) h = None \<Longrightarrow> queue_timer_callback a h s = s"
  by (simp add: queue_timer_callback_def)

lemma dm_inv_callback:
  assumes inv: "dm_inv s"
  shows "dm_inv (queue_timer_callback a h s)"
proof (cases "map_of (armed s) h")
  case None
  with inv show ?thesis by (simp add: callback_unarmed)
next
  case (Some t)
  let ?f = "q_filePath t"
  let ?s' = "queue_timer_callback a h s"
  note eq = callback_eq [OF Some, of a]
  from Some have ht: "(h, t) \<in> set (armed s)" by (auto dest: map_of_SomeD)
  from armed_registered(1) [OF inv ht] have qf: "map_of (analysisQueue s) ?f = Some h" by simp
  show ?thesis
  proof (rule dm_invI)
    fix h' t' assume "(h', t') \<in> set (armed ?s')"
    then have a: "(h', t') \<in> set (armed s)" and ne: "h' \<noteq> h"
      by (auto simp: eq set_delete)
    from armed_registered [OF inv a]
    have r: "map_of (analysisQueue s) (q_filePath t') = Some h'" "h' < next_handle s" by simp_all
    with qf ne have "q_filePath t' \<noteq> ?f" by auto
    with r show "(q_filePath t', h') \<in> set (analysisQueue ?s') \<and> h' < next_handle ?s'"
      by (auto simp: eq set_delete dest: map_of_SomeD)
  next
    fix g h' assume "(g, h') \<in> set (analysisQueue ?s')"
    then have e: "(g, h') \<in> set (analysisQueue s)" and ne: "g \<noteq> ?f"
      by (auto simp: eq set_delete)
    from registered_armed [OF inv e] obtain t' where
      t': "t' \<in> set (armed s)" "fst t' = h'" "q_filePath (snd t') = g" by blast
    have "h' \<noteq> h"
    proof
      assume "h' = h"
      with armed_unique [OF inv t'(1) ht] t'(2) have "t' = (h, t)" by simp
      with t'(3) ne show False by simp
    qed
    with t' have "(h', snd t') \<in> set (armed ?s')"
      by (auto simp: eq set_delete)
    with t'(3) show "\<exists>t. (h', t) \<in> set (armed ?s') \<and> q_filePath t = g" by blast
  next
    show "distinct (map fst (analysisQueue ?s'))"
      using dm_inv_distinct(1) [OF inv] by (simp add: eq AList.distinct_delete)
  next
    show "distinct (map fst (armed ?s'))"
      using dm_inv_distinct(2) [OF inv] by (simp add: eq AList.distinct_delete)
  qed
qed

lemma callback_effect:
  assumes inv: "dm_inv s" and reg: "map_of (analysisQueue s) f = Some h"
  shows "calls (queue_timer_callback a h s) =
           calls s @ [PerformAnalysis f] @ (if a = Some f then [UpdateDecorations f] else [])"
    and "timers_for f (queue_timer_callback a h s) = []"
    and "map_of (analysisQueue (queue_timer_callback a h s)) f = None"
proof -
  from reg have "(f, h) \<in> set (analysisQueue s)" by (auto dest: map_of_SomeD)
  from registered_armed [OF inv this] obtain t0 where
    t0: "t0 \<in> set (armed s)" "fst t0 = h" "q_filePath (snd t0) = f" by blast
  then have "(h, snd t0) \<in> set (armed s)" by (metis prod.collapse)
  with dm_inv_distinct(2) [OF inv] have m: "map_of (armed s) h = Some (snd t0)" by simp
  note eq = callback_eq [OF m, of a]
  show "calls (queue_timer_callback a h s) =
           calls s @ [PerformAnalysis f] @ (if a = Some f then [UpdateDecorations f] else [])"
    by (simp add: eq t0(3))
  show "map_of (analysisQueue (queue_timer_callback a h s)) f = None"
    by (simp add: eq t0(3) AList.delete_conv')
  have "fst t = h" if "t \<in> set (armed s)" "q_filePath (snd t) = f" for t
    using armed_registered(1) [OF inv that(1)] that(2) reg by simp
  then have "filter (\<lambda>t. q_filePath (snd t) = f) (AList.delete h (armed s)) = []"
    by (auto simp: filter_empty_conv set_delete)
  then show "timers_for f (queue_timer_callback a h s) = []"
    by (simp add: timers_for_def eq)
qed

lemma dm_inv_calls: "dm_inv (s\<lparr>calls := c\<rparr>) = dm_inv s"
  by (simp add: dm_inv_def)

lemma dm_inv_step: "dm_inv s \<Longrightarrow> dm_inv (dm_step e s)"
  by (cases e)
     (auto simp: dm_inv_schedule dm_inv_callback dm_inv_calls split: option.splits)

lemma dm_inv_run: "dm_inv s \<Longrightarrow> dm_inv (dm_run es s)"
  unfolding dm_run_def by (induction es arbitrary: s) (simp_all add: dm_inv_step)

lemma dm_inv_reachable: "dm_inv (dm_run es new_DocumentManager)"
  by (rule dm_inv_run [OF dm_inv_new])

lemma at_most_one_timer:
  assumes inv: "dm_inv s"
  shows "length (timers_for f s) \<le> 1"
proof -
  have d: "distinct (timers_for f s)"
    using dm_inv_distinct(2) [OF inv] unfolding timers_for_def by (rule distinct_map_filter)
  have "h = h'" if "h \<in> set (timers_for f s)" "h' \<in> set (timers_for f s)" for h h'
  proof -
    from that obtain t t' where t: "t \<in> set (armed s)" "q_filePath (snd t) = f" "fst t = h"
      and t': "t' \<in> set (armed s)" "q_filePath (snd t') = f" "fst t' = h'"
      by (auto simp: timers_for_def)
    from armed_registered(1) [OF inv t(1)] armed_registered(1) [OF inv t'(1)] t(2,3) t'(2,3)
    show ?thesis by simp
  qed
  then have same: "\<And>h h'. h \<in> set (timers_for f s) \<Longrightarrow> h' \<in> set (timers_for f s) \<Longrightarrow> h = h'" .
  show ?thesis
  proof (cases "timers_for f s")
    case Nil
    then show ?thesis by simp
  next
    case (Cons x xs)
    have "xs = []"
    proof (cases xs)
      case (Cons y ys)
      with \<open>timers_for f s = x # xs\<close> same [of x y] d show ?thesis by simp
    qed simp
    with Cons show ?thesis by simp
  qed
qed

lemma trigger_step:
  assumes "trigger_for f e"
  shows "\<exists>d c. dm_step e s = scheduleAnalysis f d (s\<lparr>calls := calls s @ c\<rparr>) \<and>
           PerformAnalysis f \<notin> set c"
proof (cases e)
  case (DidOpenTextDocument g l)
  with assms have "dm_step e s = scheduleAnalysis f 100 (s\<lparr>calls := calls s @ []\<rparr>)" by simp
  then show ?thesis by fastforce
next
  case (DidChangeActiveTextEditor ed)
  with assms have "dm_step e s = scheduleAnalysis f 50 (s\<lparr>calls := calls s @ []\<rparr>)" by simp
  then show ?thesis by fastforce
next
  case (DidSaveTextDocument g l)
  with assms have "dm_step e s = scheduleAnalysis f 200 (s\<lparr>calls := calls s @ [ClearCache f]\<rparr>)"
    by simp
  moreover have "PerformAnalysis f \<notin> set [ClearCache f]" by simp
  ultimately show ?thesis by blast
next
  case (DidChangeTextDocument g l)
  with assms have "dm_step e s = scheduleAnalysis f 1000 (s\<lparr>calls := calls s @ []\<rparr>)" by simp
  then show ?thesis by fastforce
next
  case (DidCloseTextDocument g l)
  with assms show ?thesis by simp
next
  case (TimerFires h a)
  with assms show ?thesis by simp
qed

lemma trigger_effect:
  assumes inv: "dm_inv s" and tr: "trigger_for f e"
  shows "analyses_of f (dm_step e s) = analyses_of f s"
    and "timers_for f (dm_step e s) = [next_handle (dm_step e s) - 1]"
    and "map_of (analysisQueue (dm_step e s)) f = Some (next_handle (dm_step e s) - 1)"
proof -
  from trigger_step [OF tr, of s] obtain d c where
    st: "dm_step e s = scheduleAnalysis f d (s\<lparr>calls := calls s @ c\<rparr>)"
    and c: "PerformAnalysis f \<notin> set c" by blast
  let ?s1 = "s\<lparr>calls := calls s @ c\<rparr>"
  have inv1: "dm_inv ?s1" using inv by (simp add: dm_inv_calls)
  from c have "count_list c (PerformAnalysis f) = 0" by (simp add: count_list_0_iff)
  then show "analyses_of f (dm_step e s) = analyses_of f s"
    by (simp add: st analyses_of_def schedule_fields)
  show "timers_for f (dm_step e s) = [next_handle (dm_step e s) - 1]"
    by (simp add: st schedule_timers_for(1) [OF inv1] schedule_fields)
  show "map_of (analysisQueue (dm_step e s)) f = Some (next_handle (dm_step e s) - 1)"
    by (simp add: st schedule_fields)
qed

lemma dm_run_snoc: "dm_run (es @ [e]) s = dm_step e (dm_run es s)"
  by (simp add: dm_run_def)

lemma burst_no_analysis:
  assumes "dm_inv s" "\<forall>e \<in> set ts. trigger_for f e"
  shows "analyses_of f (dm_run ts s) = analyses_of f s"
  using assms(2)
proof (induction ts rule: rev_induct)
  case Nil
  show ?case by (simp add: dm_run_def)
next
  case (snoc e ts)
  then have "analyses_of f (dm_run ts s) = analyses_of f s" "trigger_for f e" by simp_all
  with trigger_effect(1) [OF dm_inv_run [OF assms(1)], of f e ts] show ?case
    by (simp add: dm_run_snoc)
qed

text \<open>
  C8.  In every state the second module's manager can reach, at most one timer is armed
  for a file.  After one or more events that each schedule an analysis of the file, with
  no timer firing in between, \<open>performAnalysis\<close> has not been invoked for the file by the
  scheduling, exactly one timer is armed for it, and it is the one in the queue.  When that
  timer fires, \<open>performAnalysis\<close> is invoked once for the file, the file's queue entry is
  gone and no timer remains armed for it.
\<close>

theorem one_timer_per_file_and_one_analysis_per_burst:
  "length (timers_for f (dm_run es new_DocumentManager)) \<le> 1 \<and>
   (ts \<noteq> [] \<and> (\<forall>e \<in> set ts. trigger_for f e) \<longrightarrow>
      analyses_of f (dm_run ts (dm_run es new_DocumentManager))
        = analyses_of f (dm_run es new_DocumentManager) \<and>
      timers_for f (dm_run ts (dm_run es new_DocumentManager))
        = [next_handle (dm_run ts (dm_run es new_DocumentManager)) - 1] \<and>
      map_of (analysisQueue (dm_run ts (dm_run es new_DocumentManager))) f
        = Some (next_handle (dm_run ts (dm_run es new_DocumentManager)) - 1) \<and>
      analyses_of f
        (dm_step (TimerFires (next_handle (dm_run ts (dm_run es new_DocumentManager)) - 1) active)
           (dm_run ts (dm_run es new_DocumentManager)))
        = analyses_of f (dm_run es new_DocumentManager) + 1 \<and>
      timers_for f
        (dm_step (TimerFires (next_handle (dm_run ts (dm_run es new_DocumentManager)) - 1) active)
           (dm_run ts (dm_run es new_DocumentManager))) = [] \<and>
      map_of (analysisQueue
        (dm_step (TimerFires (next_handle (dm_run ts (dm_run es new_DocumentManager)) - 1) active)
           (dm_run ts (dm_run es new_DocumentManager)))) f = None)"
proof (intro conjI impI)
  show "length (timers_for f (dm_run es new_DocumentManager)) \<le> 1"
    by (rule at_most_one_timer [OF dm_inv_reachable])
next
  let ?s = "dm_run es new_DocumentManager"
  let ?s' = "dm_run ts ?s"
  let ?h = "next_handle ?s' - 1"
  assume a: "ts \<noteq> [] \<and> (\<forall>e \<in> set ts. trigger_for f e)"
  have inv: "dm_inv ?s" by (rule dm_inv_reachable)
  have inv': "dm_inv ?s'" by (rule dm_inv_run [OF inv])
  from a obtain ts0 e where ts: "ts = ts0 @ [e]" by (metis rev_exhaust)
  with a have tr: "trigger_for f e" by simp
  have s': "?s' = dm_step e (dm_run ts0 ?s)" by (simp add: ts dm_run_snoc)
  note te = trigger_effect [OF dm_inv_run [OF inv, of ts0] tr, folded s']
  show n: "analyses_of f ?s' = analyses_of f ?s"
    using burst_no_analysis [OF inv] a by blast
  show "timers_for f ?s' = [?h]" by (rule te(2))
  show reg: "map_of (analysisQueue ?s') f = Some ?h" by (rule te(3))
  note ce = callback_effect [OF inv' reg, of active]
  show "analyses_of f (dm_step (TimerFires ?h active) ?s') = analyses_of f ?s + 1"
    using ce(1) n by (simp add: analyses_of_def)
  show "timers_for f (dm_step (TimerFires ?h active) ?s') = []"
    using ce(2) by simp
  show "map_of (analysisQueue (dm_step (TimerFires ?h active) ?s')) f = None"
    using ce(3) by simp
qed

lemma burst_run:
  "dm_run burst (dm_run other_file_pending new_DocumentManager) =
     \<lparr> analysisQueue = [(''/p/b.py'', 0), (''/p/a.py'', 3)],
       armed = [(0, \<lparr>q_filePath = ''/p/b.py'', q_delay = 100\<rparr>),
                (3, \<lparr>q_filePath = ''/p/a.py'', q_delay = 200\<rparr>)],
       next_handle = 4,
       calls = [ClearCache ''/p/a.py''] \<rparr>"
  by (simp add: burst_def other_file_pending_def dm_run_def new_DocumentManager_def
      scheduleAnalysis_def Let_def)

theorem one_timer_per_file_and_one_analysis_per_burst_witness:
  "burst \<noteq> [] \<and> list_all (trigger_for ''/p/a.py'') burst \<and>
   analyses_of ''/p/a.py'' (dm_run other_file_pending new_DocumentManager) = 0 \<and>
   timers_for ''/p/a.py'' (dm_run burst (dm_run other_file_pending new_DocumentManager)) = [3] \<and>
   analyses_of ''/p/a.py'' (dm_run burst (dm_run other_file_pending new_DocumentManager)) = 0 \<and>
   analyses_of ''/p/a.py''
     (dm_step (TimerFires 3 (Some ''/p/a.py''))
        (dm_run burst (dm_run other_file_pending new_DocumentManager))) = 1 \<and>
   timers_for ''/p/a.py''
     (dm_step (TimerFires 3 (Some ''/p/a.py''))
        (dm_run burst (dm_run other_file_pending new_DocumentManager))) = []"
proof -
  have h: "burst \<noteq> [] \<and> (\<forall>e \<in> set burst. trigger_for ''/p/a.py'' e)"
    by (simp add: burst_def)
  have l: "list_all (trigger_for ''/p/a.py'') burst"
    by (simp add: burst_def)
  have z: "analyses_of ''/p/a.py'' (dm_run other_file_pending new_DocumentManager) = 0"
    by (simp add: analyses_of_def other_file_pending_def dm_run_def new_DocumentManager_def
        scheduleAnalysis_def Let_def)
  have n: "next_handle (dm_run burst (dm_run other_file_pending new_DocumentManager)) - 1 = 3"
    by (simp add: burst_run)
  from one_timer_per_file_and_one_analysis_per_burst
         [where ts = burst and f = "''/p/a.py''" and es = other_file_pending
            and active = "Some ''/p/a.py''"] h
  show ?thesis
    unfolding n using l z by simp
qed

text \<open>
  C9, as stated, fails in the second module, which registers no close listener: after
  a Python document is opened and closed, its timer is still armed and still in the queue;
  it fires later and \<open>performAnalysis\<close> is invoked for the file.
\<close>

theorem close_leaves_timer_armed_counterexample:
  "timers_for ''/p/a.py'' (dm_run open_then_close new_DocumentManager) = [0] \<and>
   map_of (analysisQueue (dm_run open_then_close new_DocumentManager)) ''/p/a.py'' = Some 0 \<and>
   calls (dm_run open_then_close new_DocumentManager) = [] \<and>
   calls (dm_step (TimerFires 0 None) (dm_run open_then_close new_DocumentManager))
     = [PerformAnalysis ''/p/a.py'']"
  by (simp add: open_then_close_def dm_run_def new_DocumentManager_def scheduleAnalysis_def
      Let_def timers_for_def queue_timer_callback_def performAnalysis_def)

text \<open>
  C9, amended.  In the first module, closing a Python document whose timer is registered
  in \<open>debounceTimers\<close> clears that timer, so that it can no longer fire, removes the
  file's entry, and calls nothing but \<open>clearFileCache\<close>.  In the second module the close
  event changes nothing: in every reachable state a file's registered timer stays armed
  through the close, and when it fires \<open>performAnalysis\<close> is invoked once for the file and
  the queue entry is removed (\<open>performAnalysis\<close> renders only if the file is still the
  active editor's document).
\<close>

theorem close_cancels_registered_timer:
  "(map_of (debounceTimers s) f = Some h \<longrightarrow>
      map_of (armed1 (dm1_step configured (Closed f ''python'') s)) h = None \<and>
      map_of (debounceTimers (dm1_step configured (Closed f ''python'') s)) f = None \<and>
      calls1 (dm1_step configured (Closed f ''python'') s) = calls1 s @ [ClearFileCache f] \<and>
      dm1_step configured (DebounceFires h) (dm1_step configured (Closed f ''python'') s)
        = dm1_step configured (Closed f ''python'') s) \<and>
   dm_step (DidCloseTextDocument f languageId) (dm_run es new_DocumentManager)
     = dm_run es new_DocumentManager \<and>
   (map_of (analysisQueue (dm_run es new_DocumentManager)) f = Some k \<longrightarrow>
      timers_for f (dm_step (DidCloseTextDocument f languageId) (dm_run es new_DocumentManager))
        = [k] \<and>
      analyses_of f
        (dm_step (TimerFires k active)
           (dm_step (DidCloseTextDocument f languageId) (dm_run es new_DocumentManager)))
        = analyses_of f (dm_run es new_DocumentManager) + 1 \<and>
      map_of (analysisQueue
        (dm_step (TimerFires k active)
           (dm_step (DidCloseTextDocument f languageId) (dm_run es new_DocumentManager)))) f
        = None)"
proof (intro conjI impI)
  assume r: "map_of (debounceTimers s) f = Some h"
  let ?s' = "dm1_step configured (Closed f ''python'') s"
  have eq: "onDidCloseTextDocument f ''python'' s = s\<lparr>calls1 := calls1 s @ [ClearFileCache f],
                     armed1 := AList.delete h (armed1 s),
                     debounceTimers := AList.delete f (debounceTimers s)\<rparr>"
    using r by (simp add: onDidCloseTextDocument_def Let_def)
  show a: "map_of (armed1 ?s') h = None" by (simp add: eq AList.delete_conv')
  show "map_of (debounceTimers ?s') f = None" by (simp add: eq AList.delete_conv')
  show "calls1 ?s' = calls1 s @ [ClearFileCache f]" by (simp add: eq)
  show "dm1_step configured (DebounceFires h) ?s' = ?s'"
    using a by (simp add: debounce_callback_starts_def)
next
  show "dm_step (DidCloseTextDocument f languageId) (dm_run es new_DocumentManager)
     = dm_run es new_DocumentManager" by simp
next
  let ?s = "dm_run es new_DocumentManager"
  assume reg: "map_of (analysisQueue ?s) f = Some k"
  have inv: "dm_inv ?s" by (rule dm_inv_reachable)
  note ce = callback_effect [OF inv reg, of active]
  from reg have "(f, k) \<in> set (analysisQueue ?s)" by (auto dest: map_of_SomeD)
  from registered_armed [OF inv this] have "k \<in> set (timers_for f ?s)"
    by (force simp: timers_for_def)
  with at_most_one_timer [OF inv, of f] have "timers_for f ?s = [k]"
    by (cases "timers_for f ?s") auto
  then show "timers_for f (dm_step (DidCloseTextDocument f languageId) ?s) = [k]" by simp
  show "analyses_of f (dm_step (TimerFires k active) (dm_step (DidCloseTextDocument f languageId) ?s))
        = analyses_of f ?s + 1"
    using ce(1) by (simp add: analyses_of_def)
  show "map_of (analysisQueue (dm_step (TimerFires k active)
           (dm_step (DidCloseTextDocument f languageId) ?s))) f = None"
    using ce(3) by simp
qed

lemma editor_activated_eq:
  "editor_activated =
     \<lparr> debounceTimers = [(''/p/a.py'', 0)],
       armed1 = [(0, \<lparr>q_filePath = ''/p/a.py'', q_delay = 1000\<rparr>)],
       running = [], next_handle1 = 1, calls1 = [] \<rparr>"
  by (simp add: editor_activated_def new_DocumentManager1_def scheduleAnalysis1_def Let_def)

theorem close_cancels_registered_timer_witness:
  "map_of (debounceTimers editor_activated) ''/p/a.py'' = Some 0 \<and>
   map_of (armed1 editor_activated) 0 = Some \<lparr>q_filePath = ''/p/a.py'', q_delay = 1000\<rparr> \<and>
   map_of (armed1 (dm1_step 1000 (Closed ''/p/a.py'' ''python'') editor_activated)) 0 = None \<and>
   map_of (debounceTimers (dm1_step 1000 (Closed ''/p/a.py'' ''python'') editor_activated))
     ''/p/a.py'' = None \<and>
   calls1 (dm1_step 1000 (Closed ''/p/a.py'' ''python'') editor_activated)
     = [ClearFileCache ''/p/a.py''] \<and>
   map_of (analysisQueue (dm_run open_then_close new_DocumentManager)) ''/p/a.py'' = Some 0 \<and>
   analyses_of ''/p/a.py'' (dm_run open_then_close new_DocumentManager) = 0 \<and>
   analyses_of ''/p/a.py''
     (dm_step (TimerFires 0 None)
        (dm_step (DidCloseTextDocument ''/p/a.py'' ''python'')
           (dm_run open_then_close new_DocumentManager))) = 1"
proof -
  have r: "map_of (debounceTimers editor_activated) ''/p/a.py'' = Some 0"
    and a: "map_of (armed1 editor_activated) 0 = Some \<lparr>q_filePath = ''/p/a.py'', q_delay = 1000\<rparr>"
    and c: "calls1 editor_activated = []"
    by (simp_all add: editor_activated_eq)
  have q: "map_of (analysisQueue (dm_run open_then_close new_DocumentManager)) ''/p/a.py'' = Some 0"
    and z: "analyses_of ''/p/a.py'' (dm_run open_then_close new_DocumentManager) = 0"
    by (simp_all add: open_then_close_def dm_run_def new_DocumentManager_def scheduleAnalysis_def
        Let_def analyses_of_def)
  from close_cancels_registered_timer
         [where s = editor_activated and f = "''/p/a.py''" and h = 0 and configured = 1000
            and es = open_then_close and k = 0 and languageId = "''python''" and active = None]
       r a c q z
  show ?thesis by simp
qed

text \<open>
  The first module's \<open>finally\<close> deletes the file's entry whichever timer it names.  When
  the file is scheduled again while a callback is awaiting, the newer timer loses its
  registration and the close listener finds nothing to clear: the timer stays armed.
\<close>

lemma first_module_finally_drops_newer_timer:
  "debounceTimers (foldl (\<lambda>acc e. dm1_step 1000 e acc) new_DocumentManager1 overlapping_callback)
     = [] \<and>
   armed1 (foldl (\<lambda>acc e. dm1_step 1000 e acc) new_DocumentManager1 overlapping_callback)
     = [(1, \<lparr>q_filePath = ''/p/a.py'', q_delay = 1000\<rparr>)]"
  by (simp add: overlapping_callback_def new_DocumentManager1_def scheduleAnalysis1_def Let_def
      debounce_callback_starts_def debounce_callback_settles_def onDidCloseTextDocument_def)

end
